theory Spec2Isabelle
  imports Complex_Main "HOL-Library.Sublist" "HOL-Library.Log_Nat"
begin

section \<open>Head-tail output buffer (internal/execsession/buffer.go)\<close>

text \<open>
  Go's \<open>int\<close> is modelled by \<open>int\<close>: the counters of the buffer count bytes held in
  memory or pushed so far, which stay far below \<open>2^63\<close>. A byte is a \<open>char\<close>, a
  \<open>[]byte\<close> a \<open>char list\<close>. The mutex is left out: every method body runs under the
  lock, so a method is one atomic step on the struct.
\<close>

type_synonym bytes = "char list"

record HeadTailBuffer =
  maxBytes :: int
  headBudget :: int
  tailBudget :: int
  head :: "bytes list"
  tail :: "bytes list"
  headBytes :: int
  tailBytes :: int
  omitted :: int
  totalEver :: int

datatype go_panic = SliceBoundsOutOfRange | IndexOutOfRange

text \<open>Go's integer division truncates toward zero.\<close>

definition go_quot :: "int \<Rightarrow> int \<Rightarrow> int" where
  "go_quot a b = sgn a * sgn b * (\<bar>a\<bar> div \<bar>b\<bar>)"

definition NewHeadTailBuffer :: "int \<Rightarrow> HeadTailBuffer" where
  "NewHeadTailBuffer mx =
     (let hb = go_quot mx 2; tb = mx - hb in
      \<lparr>maxBytes = mx, headBudget = hb, tailBudget = tb, head = [], tail = [],
       headBytes = 0, tailBytes = 0, omitted = 0, totalEver = 0\<rparr>)"

text \<open>\<open>chunk[start:]\<close> and \<open>chunk[:stop]\<close>: Go panics when the bound is outside \<open>0..len\<close>.\<close>

definition slice_from :: "'a list \<Rightarrow> int \<Rightarrow> go_panic + 'a list" where
  "slice_from xs start =
     (if 0 \<le> start \<and> start \<le> int (length xs) then Inr (drop (nat start) xs)
      else Inl SliceBoundsOutOfRange)"

definition slice_to :: "'a list \<Rightarrow> int \<Rightarrow> go_panic + 'a list" where
  "slice_to xs stop =
     (if 0 \<le> stop \<and> stop \<le> int (length xs) then Inr (take (nat stop) xs)
      else Inl SliceBoundsOutOfRange)"

text \<open>
  The loop of \<open>trimTailToBudget\<close>, with \<open>excess\<close> as its loop variable. In the
  \<open>else\<close> branch \<open>0 < excess < len(front)\<close>, so \<open>front[excess:]\<close> is in range.
\<close>

function trimLoop :: "int \<Rightarrow> HeadTailBuffer \<Rightarrow> HeadTailBuffer" where
  "trimLoop excess b =
     (if excess > 0 \<and> length (tail b) > 0 then
        (case tail b of
           [] \<Rightarrow> b
         | front # rest \<Rightarrow>
             if excess \<ge> int (length front) then
               trimLoop (excess - int (length front))
                 (b\<lparr>tailBytes := tailBytes b - int (length front),
                    omitted := omitted b + int (length front),
                    tail := rest\<rparr>)
             else
               b\<lparr>tail := drop (nat excess) front # rest,
                  tailBytes := tailBytes b - excess,
                  omitted := omitted b + excess\<rparr>)
      else b)"
  by pat_completeness auto
termination
  by (relation "measure (\<lambda>(excess, b). length (tail b))") auto

definition trimTailToBudget :: "HeadTailBuffer \<Rightarrow> HeadTailBuffer" where
  "trimTailToBudget b = trimLoop (tailBytes b - tailBudget b) b"

definition pushToTail :: "HeadTailBuffer \<Rightarrow> bytes \<Rightarrow> go_panic + HeadTailBuffer" where
  "pushToTail b chunk =
     (if tailBudget b = 0 then Inr (b\<lparr>omitted := omitted b + int (length chunk)\<rparr>)
      else if int (length chunk) \<ge> tailBudget b then
        (case slice_from chunk (int (length chunk) - tailBudget b) of
           Inl e \<Rightarrow> Inl e
         | Inr kept \<Rightarrow>
             let dropped = int (length chunk) - int (length kept) in
             Inr (b\<lparr>omitted := omitted b + (tailBytes b + dropped),
                    tail := [kept],
                    tailBytes := int (length kept)\<rparr>))
      else
        Inr (trimTailToBudget
               (b\<lparr>tailBytes := tailBytes b + int (length chunk),
                  tail := tail b @ [chunk]\<rparr>)))"

definition pushUnlocked :: "HeadTailBuffer \<Rightarrow> bytes \<Rightarrow> go_panic + HeadTailBuffer" where
  "pushUnlocked b chunk =
     (if maxBytes b = 0 then Inr (b\<lparr>omitted := omitted b + int (length chunk)\<rparr>)
      else if headBytes b < headBudget b then
        (let remaining = headBudget b - headBytes b in
         if int (length chunk) \<le> remaining then
           Inr (b\<lparr>headBytes := headBytes b + int (length chunk),
                  head := head b @ [chunk]\<rparr>)
         else
           (case slice_to chunk remaining of
              Inl e \<Rightarrow> Inl e
            | Inr headPart \<Rightarrow>
               (case slice_from chunk remaining of
                  Inl e \<Rightarrow> Inl e
                | Inr tailPart \<Rightarrow>
                    pushToTail
                      (if length headPart > 0
                       then b\<lparr>headBytes := headBytes b + int (length headPart),
                              head := head b @ [headPart]\<rparr>
                       else b)
                      tailPart)))
      else pushToTail b chunk)"

definition Push :: "HeadTailBuffer \<Rightarrow> bytes \<Rightarrow> go_panic + HeadTailBuffer" where
  "Push b chunk =
     (if length chunk = 0 then Inr b
      else pushUnlocked (b\<lparr>totalEver := totalEver b + int (length chunk)\<rparr>) chunk)"

definition toBytesUnlocked :: "HeadTailBuffer \<Rightarrow> bytes" where
  "toBytesUnlocked b =
     (if headBytes b + tailBytes b = 0 then []
      else concat (head b) @ concat (tail b))"

definition Snapshot :: "HeadTailBuffer \<Rightarrow> bytes" where
  "Snapshot b = toBytesUnlocked b"

definition RetainedBytes :: "HeadTailBuffer \<Rightarrow> int" where
  "RetainedBytes b = headBytes b + tailBytes b"

definition OmittedBytes :: "HeadTailBuffer \<Rightarrow> int" where
  "OmittedBytes b = omitted b"

definition TotalWritten :: "HeadTailBuffer \<Rightarrow> int" where
  "TotalWritten b = totalEver b"

definition DrainChunks :: "HeadTailBuffer \<Rightarrow> bytes list \<times> HeadTailBuffer" where
  "DrainChunks b =
     (head b @ tail b,
      b\<lparr>head := [], tail := [], headBytes := 0, tailBytes := 0, omitted := 0\<rparr>)"

text \<open>Sequences of the two mutating operations, stopping at the first panic.\<close>

datatype buf_op = OpPush bytes | OpDrainChunks

fun apply_op :: "HeadTailBuffer \<Rightarrow> buf_op \<Rightarrow> go_panic + HeadTailBuffer" where
  "apply_op b (OpPush chunk) = Push b chunk"
| "apply_op b OpDrainChunks = Inr (snd (DrainChunks b))"

fun run_ops :: "HeadTailBuffer \<Rightarrow> buf_op list \<Rightarrow> go_panic + HeadTailBuffer" where
  "run_ops b [] = Inr b"
| "run_ops b (x # xs) =
     (case apply_op b x of Inl e \<Rightarrow> Inl e | Inr b' \<Rightarrow> run_ops b' xs)"

text \<open>All bytes ever passed to \<open>Push\<close>, and those passed since the last \<open>DrainChunks\<close>.\<close>

fun pushed :: "buf_op list \<Rightarrow> bytes" where
  "pushed [] = []"
| "pushed (OpPush chunk # xs) = chunk @ pushed xs"
| "pushed (OpDrainChunks # xs) = pushed xs"

fun since_drain :: "bytes \<Rightarrow> buf_op list \<Rightarrow> bytes" where
  "since_drain acc [] = acc"
| "since_drain acc (OpPush chunk # xs) = since_drain (acc @ chunk) xs"
| "since_drain acc (OpDrainChunks # xs) = since_drain [] xs"

definition counters :: "go_panic + HeadTailBuffer \<Rightarrow> (int \<times> int \<times> int) option" where
  "counters r =
     (case r of Inl e \<Rightarrow> None
      | Inr b \<Rightarrow> Some (RetainedBytes b, OmittedBytes b, TotalWritten b))"

text \<open>
  The invariant relating the struct to \<open>s\<close>, the bytes pushed since the buffer was
  created or last drained: the head holds the first \<open>headBudget\<close> bytes of \<open>s\<close>, the
  tail the last \<open>tailBudget\<close> bytes of what follows them.
\<close>

definition buf_inv :: "int \<Rightarrow> bytes \<Rightarrow> HeadTailBuffer \<Rightarrow> bool" where
  "buf_inv m s b \<longleftrightarrow>
     maxBytes b = m \<and> headBudget b = m div 2 \<and> tailBudget b = m - m div 2 \<and>
     headBytes b = int (length (concat (head b))) \<and>
     tailBytes b = int (length (concat (tail b))) \<and>
     concat (head b) = take (nat (m div 2)) s \<and>
     concat (tail b) = drop (max (nat (m div 2)) (length s - nat (m - m div 2))) s \<and>
     omitted b = int (length s) - headBytes b - tailBytes b"

declare trimLoop.simps [simp del]

lemma go_quot_nonneg: "0 \<le> a \<Longrightarrow> go_quot a 2 = a div 2"
  by (cases "a = 0") (simp_all add: go_quot_def)

lemma trimLoop_frame:
  "head (trimLoop e b) = head b \<and> headBytes (trimLoop e b) = headBytes b \<and>
   maxBytes (trimLoop e b) = maxBytes b \<and> headBudget (trimLoop e b) = headBudget b \<and>
   tailBudget (trimLoop e b) = tailBudget b \<and> totalEver (trimLoop e b) = totalEver b"
proof (induction e b rule: trimLoop.induct)
  case (1 excess b)
  show ?case
  proof (cases "excess > 0 \<and> length (tail b) > 0")
    case False
    then have "trimLoop excess b = b" by (subst trimLoop.simps) simp
    then show ?thesis by simp
  next
    case True
    then obtain front rest where t: "tail b = front # rest" by (cases "tail b") auto
    show ?thesis
    proof (cases "excess \<ge> int (length front)")
      case ge: True
      let ?b' = "b\<lparr>tailBytes := tailBytes b - int (length front),
                    omitted := omitted b + int (length front), tail := rest\<rparr>"
      have unf: "trimLoop excess b = trimLoop (excess - int (length front)) ?b'"
        using True t ge by (subst trimLoop.simps) simp
      show ?thesis unfolding unf using 1[OF True t ge] by simp
    next
      case False
      with t True have "trimLoop excess b =
          b\<lparr>tail := drop (nat excess) front # rest, tailBytes := tailBytes b - excess,
            omitted := omitted b + excess\<rparr>"
        by (subst trimLoop.simps) simp
      then show ?thesis by simp
    qed
  qed
qed

lemma trimLoop_tail:
  "tailBytes b = int (length (concat (tail b))) \<Longrightarrow> e \<le> tailBytes b \<Longrightarrow>
   concat (tail (trimLoop e b)) = drop (nat e) (concat (tail b)) \<and>
   tailBytes (trimLoop e b) = tailBytes b - max 0 e \<and>
   omitted (trimLoop e b) = omitted b + max 0 e"
proof (induction e b rule: trimLoop.induct)
  case (1 excess b)
  show ?case
  proof (cases "excess > 0 \<and> length (tail b) > 0")
    case False
    with 1(2,3) have "excess \<le> 0" by (cases "tail b") auto
    then show ?thesis using False by (subst (1 2 3) trimLoop.simps) simp
  next
    case True
    then obtain front rest where t: "tail b = front # rest" by (cases "tail b") auto
    show ?thesis
    proof (cases "excess \<ge> int (length front)")
      case ge: True
      let ?b' = "b\<lparr>tailBytes := tailBytes b - int (length front),
                    omitted := omitted b + int (length front), tail := rest\<rparr>"
      have ih: "concat (tail (trimLoop (excess - int (length front)) ?b')) =
              drop (nat (excess - int (length front))) (concat (tail ?b')) \<and>
            tailBytes (trimLoop (excess - int (length front)) ?b') =
              tailBytes ?b' - max 0 (excess - int (length front)) \<and>
            omitted (trimLoop (excess - int (length front)) ?b') =
              omitted ?b' + max 0 (excess - int (length front))"
        using 1(1)[OF True t ge] 1(2,3) t by simp
      have unf: "trimLoop excess b = trimLoop (excess - int (length front)) ?b'"
        using True t ge by (subst trimLoop.simps) simp
      have d: "drop (nat excess) (front @ concat rest) =
               drop (nat (excess - int (length front))) (concat rest)"
        using ge by (simp add: nat_diff_distrib)
      show ?thesis unfolding unf using ih t ge d True by simp
    next
      case False
      with t True show ?thesis using 1(2,3)
        by (subst (1 2 3) trimLoop.simps) simp
    qed
  qed
qed


lemma drop_drop_last:
  "drop (length (drop k xs) - t) (drop k xs) = drop (max k (length xs - t)) xs"
proof -
  have "length xs - k - t + k = max k (length xs - t)" by arith
  then show ?thesis by simp
qed

lemma pushToTail_spec:
  assumes tb: "0 \<le> tailBudget b"
      and len: "tailBytes b = int (length (concat (tail b)))"
      and le: "tailBytes b \<le> tailBudget b"
  shows "\<exists>b'. pushToTail b c = Inr b' \<and>
           concat (tail b') =
             drop (length (concat (tail b) @ c) - nat (tailBudget b)) (concat (tail b) @ c) \<and>
           tailBytes b' = int (length (concat (tail b'))) \<and>
           omitted b' = omitted b + tailBytes b + int (length c) - tailBytes b' \<and>
           head b' = head b \<and> headBytes b' = headBytes b \<and> maxBytes b' = maxBytes b \<and>
           headBudget b' = headBudget b \<and> tailBudget b' = tailBudget b \<and>
           totalEver b' = totalEver b"
proof (cases "tailBudget b = 0")
  case True
  with len le have "concat (tail b) = []" by simp
  with True len show ?thesis by (simp add: pushToTail_def)
next
  case nz: False
  show ?thesis
  proof (cases "int (length c) \<ge> tailBudget b")
    case True
    have "length (concat (tail b)) + length c - nat (tailBudget b) =
          length (concat (tail b)) + (length c - nat (tailBudget b))"
      using True tb by arith
    moreover have "nat (int (length c) - tailBudget b) = length c - nat (tailBudget b)"
      using tb by arith
    ultimately show ?thesis using True nz tb len
      by (simp add: pushToTail_def slice_from_def Let_def)
  next
    case False
    define b1 where "b1 = b\<lparr>tailBytes := tailBytes b + int (length c), tail := tail b @ [c]\<rparr>"
    define e where "e = tailBytes b1 - tailBudget b1"
    define b2 where "b2 = trimLoop e b1"
    have p: "pushToTail b c = Inr b2"
      using False nz by (simp add: pushToTail_def trimTailToBudget_def b2_def e_def b1_def)
    have l1: "tailBytes b1 = int (length (concat (tail b1)))" using len by (simp add: b1_def)
    have e1: "e \<le> tailBytes b1" using tb by (simp add: e_def b1_def)
    have c1: "concat (tail b1) = concat (tail b) @ c" by (simp add: b1_def)
    have T1: "concat (tail b2) = drop (nat e) (concat (tail b) @ c)"
      and T2: "tailBytes b2 = tailBytes b1 - max 0 e"
      and T3: "omitted b2 = omitted b1 + max 0 e"
      using trimLoop_tail[OF l1 e1] c1 by (simp_all add: b2_def)
    have F: "head b2 = head b \<and> headBytes b2 = headBytes b \<and> maxBytes b2 = maxBytes b \<and>
        headBudget b2 = headBudget b \<and> tailBudget b2 = tailBudget b \<and> totalEver b2 = totalEver b"
      using trimLoop_frame[of e b1] by (simp add: b2_def b1_def)
    have ev: "e = int (length (concat (tail b) @ c)) - tailBudget b"
      using len by (simp add: e_def b1_def)
    have n: "nat e = length (concat (tail b) @ c) - nat (tailBudget b)"
      using tb unfolding ev by arith
    have tl2: "tailBytes b2 = int (length (concat (tail b2)))"
    proof -
      have "int (length (concat (tail b2))) = int (length (concat (tail b) @ c) - nat e)"
        unfolding T1 by simp
      also have "\<dots> = int (length (concat (tail b) @ c)) - max 0 e"
        using e1 l1 c1 by (cases "0 \<le> e") simp_all
      also have "\<dots> = tailBytes b2" unfolding T2 using l1 c1 by simp
      finally show ?thesis by simp
    qed
    have om: "omitted b2 = omitted b + tailBytes b + int (length c) - tailBytes b2"
      unfolding T2 T3 by (simp add: b1_def)
    have g1: "concat (tail b2) =
        drop (length (concat (tail b) @ c) - nat (tailBudget b)) (concat (tail b) @ c)"
      unfolding T1 n ..
    show ?thesis unfolding p using g1 tl2 om F by blast
  qed
qed


lemma nat_keep_last: "l - max h (l - t) \<le> (t::nat)"
  by arith

lemma half_bounds: "0 \<le> (m::int) \<Longrightarrow> 0 \<le> m div 2 \<and> 0 \<le> m - m div 2"
  by presburger

lemma buf_inv_tail_le:
  assumes m: "0 \<le> m" and inv: "buf_inv m s b"
  shows "0 \<le> tailBudget b" and "tailBytes b \<le> tailBudget b"
    and "headBytes b = int (min (length s) (nat (m div 2)))"
proof -
  have tbv: "tailBudget b = m - m div 2" using inv unfolding buf_inv_def by blast
  show "0 \<le> tailBudget b" using half_bounds[OF m] tbv by simp
  have "tailBytes b = int (length s - max (nat (m div 2)) (length s - nat (m - m div 2)))"
    using inv unfolding buf_inv_def by simp
  also have "\<dots> \<le> int (nat (m - m div 2))"
    using nat_keep_last[of "length s" "nat (m div 2)" "nat (m - m div 2)"]
    by (simp only: of_nat_le_iff)
  also have "\<dots> = tailBudget b" using half_bounds[OF m] tbv by simp
  finally show "tailBytes b \<le> tailBudget b" .
  show "headBytes b = int (min (length s) (nat (m div 2)))"
    using inv unfolding buf_inv_def by simp
qed

lemma pushUnlocked_inv:
  assumes m: "0 \<le> m" and inv: "buf_inv m s b"
  shows "\<exists>b'. pushUnlocked b c = Inr b' \<and> buf_inv m (s @ c) b' \<and> totalEver b' = totalEver b"
proof -
  define hb where "hb = nat (m div 2)"
  define tb where "tb = nat (m - m div 2)"
  have hbi: "int hb = m div 2" and tbi: "int tb = m - m div 2"
    using half_bounds[OF m] by (simp_all add: hb_def tb_def)
  have I: "maxBytes b = m" "headBudget b = int hb" "tailBudget b = int tb"
      "headBytes b = int (length (concat (head b)))"
      "tailBytes b = int (length (concat (tail b)))"
      "concat (head b) = take hb s"
      "concat (tail b) = drop (max hb (length s - tb)) s"
      "omitted b = int (length s) - headBytes b - tailBytes b"
    using inv hbi tbi unfolding buf_inv_def hb_def tb_def by simp_all
  have goal_iff: "\<And>b'. buf_inv m (s @ c) b' \<longleftrightarrow>
      maxBytes b' = m \<and> headBudget b' = int hb \<and> tailBudget b' = int tb \<and>
      headBytes b' = int (length (concat (head b'))) \<and>
      tailBytes b' = int (length (concat (tail b'))) \<and>
      concat (head b') = take hb (s @ c) \<and>
      concat (tail b') = drop (max hb (length (s @ c) - tb)) (s @ c) \<and>
      omitted b' = int (length (s @ c)) - headBytes b' - tailBytes b'"
    using hbi tbi unfolding buf_inv_def hb_def tb_def by simp
  note tl = buf_inv_tail_le[OF m inv, folded hb_def]
  show ?thesis
  proof (cases "maxBytes b = 0")
    case True
    then have z: "hb = 0" "tb = 0" using I(1) by (simp_all add: hb_def tb_def)
    have "pushUnlocked b c = Inr (b\<lparr>omitted := omitted b + int (length c)\<rparr>)"
      using True by (simp add: pushUnlocked_def)
    moreover have "buf_inv m (s @ c) (b\<lparr>omitted := omitted b + int (length c)\<rparr>)"
      unfolding goal_iff using I z by simp
    ultimately show ?thesis by simp
  next
    case nz: False
    show ?thesis
    proof (cases "headBytes b < headBudget b")
      case False
      then have ge: "hb \<le> length s" using tl(3) I(2) by simp
      obtain b' where b': "pushToTail b c = Inr b'"
          "concat (tail b') =
             drop (length (concat (tail b) @ c) - nat (tailBudget b)) (concat (tail b) @ c)"
          "tailBytes b' = int (length (concat (tail b')))"
          "omitted b' = omitted b + tailBytes b + int (length c) - tailBytes b'"
          "head b' = head b" "headBytes b' = headBytes b" "maxBytes b' = maxBytes b"
          "headBudget b' = headBudget b" "tailBudget b' = tailBudget b"
          "totalEver b' = totalEver b"
        using pushToTail_spec[OF tl(1) I(5) tl(2), of c] by blast
      define k where "k = max hb (length s - tb)"
      have kle: "k \<le> length s" using ge by (simp add: k_def)
      have "concat (tail b) @ c = drop k (s @ c)" using I(7) kle by (simp add: k_def)
      then have "concat (tail b') = drop (length (drop k (s @ c)) - tb) (drop k (s @ c))"
        using b'(2) I(3) by simp
      also have "\<dots> = drop (max k (length (s @ c) - tb)) (s @ c)" by (rule drop_drop_last)
      also have "max k (length (s @ c) - tb) = max hb (length (s @ c) - tb)"
        unfolding k_def by simp
      finally have t': "concat (tail b') = drop (max hb (length (s @ c) - tb)) (s @ c)" .
      have h': "concat (head b') = take hb (s @ c)" using b'(5) I(6) ge by simp
      have "buf_inv m (s @ c) b'"
        unfolding goal_iff
      proof (intro conjI)
        show "maxBytes b' = m" using b'(7) I(1) by simp
        show "headBudget b' = int hb" using b'(8) I(2) by simp
        show "tailBudget b' = int tb" using b'(9) I(3) by simp
        show "headBytes b' = int (length (concat (head b')))" using b'(5,6) I(4) by simp
        show "tailBytes b' = int (length (concat (tail b')))" by (rule b'(3))
        show "concat (head b') = take hb (s @ c)" by (rule h')
        show "concat (tail b') = drop (max hb (length (s @ c) - tb)) (s @ c)" by (rule t')
        show "omitted b' = int (length (s @ c)) - headBytes b' - tailBytes b'"
          using b'(4,6) I(8) by simp
      qed
      moreover have "pushUnlocked b c = Inr b'"
        using nz False b'(1) by (simp add: pushUnlocked_def)
      ultimately show ?thesis using b'(10) by blast
    next
      case True
      then have lt: "length s < hb" using tl(3) I(2) by simp
      have hs: "concat (head b) = s" "headBytes b = int (length s)" "concat (tail b) = []"
          "tailBytes b = 0"
        using I(4,5,6,7) lt by simp_all
      define rem where "rem = headBudget b - headBytes b"
      have remv: "rem = int hb - int (length s)" "nat rem = hb - length s" "0 < rem"
        using lt I hs by (simp_all add: rem_def)
      show ?thesis
      proof (cases "int (length c) \<le> rem")
        case le: True
        define b1 where "b1 = b\<lparr>headBytes := headBytes b + int (length c), head := head b @ [c]\<rparr>"
        have "pushUnlocked b c = Inr b1"
          using nz True le by (simp add: pushUnlocked_def Let_def rem_def b1_def)
        moreover have "buf_inv m (s @ c) b1"
          unfolding goal_iff
        proof (intro conjI)
          show "maxBytes b1 = m" using I(1) by (simp add: b1_def)
          show "headBudget b1 = int hb" using I(2) by (simp add: b1_def)
          show "tailBudget b1 = int tb" using I(3) by (simp add: b1_def)
          show "headBytes b1 = int (length (concat (head b1)))" using hs(1,2) by (simp add: b1_def)
          show "tailBytes b1 = int (length (concat (tail b1)))" using I(5) by (simp add: b1_def)
          show "concat (head b1) = take hb (s @ c)" using hs(1) le remv(1) by (simp add: b1_def)
          have "length s + length c \<le> hb" using le remv(1) by simp
          then have "drop (max hb (length (s @ c) - tb)) (s @ c) = []" by simp
          moreover have "concat (tail b1) = []" using hs(4) I(5) by (simp add: b1_def)
          ultimately show "concat (tail b1) = drop (max hb (length (s @ c) - tb)) (s @ c)" by simp
          show "omitted b1 = int (length (s @ c)) - headBytes b1 - tailBytes b1"
            using I(8) hs(2,4) by (simp add: b1_def)
        qed
        ultimately show ?thesis by (simp add: b1_def)
      next
        case gt: False
        define headPart where "headPart = take (nat rem) c"
        define tailPart where "tailPart = drop (nat rem) c"
        define b1 where "b1 = b\<lparr>headBytes := headBytes b + int (length headPart),
                                   head := head b @ [headPart]\<rparr>"
        have hp: "length headPart = nat rem" "0 < length headPart"
          using gt remv by (simp_all add: headPart_def)
        have st: "slice_to c rem = Inr headPart" "slice_from c rem = Inr tailPart"
          using gt remv(3) by (simp_all add: slice_to_def slice_from_def headPart_def tailPart_def)
        have pu: "pushUnlocked b c = pushToTail b1 tailPart"
          unfolding pushUnlocked_def Let_def rem_def[symmetric]
          using nz True gt st hp(2) by (simp add: b1_def)
        have b1f: "tailBudget b1 = tailBudget b" "tailBytes b1 = 0" "concat (tail b1) = []"
            "omitted b1 = omitted b" "head b1 = head b @ [headPart]"
            "headBytes b1 = int hb" "maxBytes b1 = m" "headBudget b1 = int hb"
            "totalEver b1 = totalEver b"
          using hs I(1,2,3) hp remv(1,3) by (simp_all add: b1_def)
        have q1: "0 \<le> tailBudget b1" using tl(1) b1f by simp
        have q2: "tailBytes b1 = int (length (concat (tail b1)))" using b1f by simp
        have q3: "tailBytes b1 \<le> tailBudget b1" using q1 b1f by simp
        obtain b' where b': "pushToTail b1 tailPart = Inr b'"
          "concat (tail b') =
             drop (length (concat (tail b1) @ tailPart) - nat (tailBudget b1))
               (concat (tail b1) @ tailPart)"
          "tailBytes b' = int (length (concat (tail b')))"
          "omitted b' = omitted b1 + tailBytes b1 + int (length tailPart) - tailBytes b'"
          "head b' = head b1" "headBytes b' = headBytes b1" "maxBytes b' = maxBytes b1"
          "headBudget b' = headBudget b1" "tailBudget b' = tailBudget b1"
          "totalEver b' = totalEver b1"
          using pushToTail_spec[OF q1 q2 q3, of tailPart] by blast
        have tp: "tailPart = drop hb (s @ c)" using lt remv by (simp add: tailPart_def)
        have "concat (tail b') = drop (length (drop hb (s @ c)) - tb) (drop hb (s @ c))"
          using b'(2) b1f I(3) tp by simp
        also have "\<dots> = drop (max hb (length (s @ c) - tb)) (s @ c)" by (rule drop_drop_last)
        finally have t': "concat (tail b') = drop (max hb (length (s @ c) - tb)) (s @ c)" .
        have h': "concat (head b') = take hb (s @ c)"
          using b'(5) b1f hs lt remv by (simp add: headPart_def)
        have ltp: "int (length tailPart) = int (length c) - rem"
          using gt remv by (simp add: tailPart_def)
        have om: "omitted b' = int (length (s @ c)) - headBytes b' - tailBytes b'"
          using b'(4,6) b1f I(8) hs ltp remv by simp
        have "buf_inv m (s @ c) b'"
          unfolding goal_iff
        proof (intro conjI)
          show "maxBytes b' = m" using b'(7) b1f(7) by simp
          show "headBudget b' = int hb" using b'(8) b1f(8) by simp
          show "tailBudget b' = int tb" using b'(9) b1f(1) I(3) by simp
          show "headBytes b' = int (length (concat (head b')))"
            using b'(5,6) b1f(5,6) hs(1) hp(1) remv(2) lt by simp
          show "tailBytes b' = int (length (concat (tail b')))" by (rule b'(3))
          show "concat (head b') = take hb (s @ c)" by (rule h')
          show "concat (tail b') = drop (max hb (length (s @ c) - tb)) (s @ c)" by (rule t')
          show "omitted b' = int (length (s @ c)) - headBytes b' - tailBytes b'" by (rule om)
        qed
        then show ?thesis using pu b'(1,10) b1f by simp
      qed
    qed
  qed
qed

lemma Push_inv:
  assumes m: "0 \<le> m" and inv: "buf_inv m s b"
  shows "\<exists>b'. Push b c = Inr b' \<and> buf_inv m (s @ c) b' \<and>
           totalEver b' = totalEver b + int (length c)"
proof (cases "length c = 0")
  case True
  then show ?thesis using inv by (simp add: Push_def)
next
  case False
  let ?b0 = "b\<lparr>totalEver := totalEver b + int (length c)\<rparr>"
  have "buf_inv m s ?b0" using inv by (simp add: buf_inv_def)
  from pushUnlocked_inv[OF m this, of c] False show ?thesis by (simp add: Push_def)
qed

lemma DrainChunks_inv:
  assumes inv: "buf_inv m s b"
  shows "buf_inv m [] (snd (DrainChunks b)) \<and> totalEver (snd (DrainChunks b)) = totalEver b"
  using inv by (simp add: buf_inv_def DrainChunks_def)

lemma NewHeadTailBuffer_inv: "0 \<le> m \<Longrightarrow> buf_inv m [] (NewHeadTailBuffer m)"
  by (simp add: buf_inv_def NewHeadTailBuffer_def Let_def go_quot_nonneg)

lemma run_ops_inv:
  assumes m: "0 \<le> m"
  shows "buf_inv m acc b \<Longrightarrow>
         \<exists>b'. run_ops b ops = Inr b' \<and> buf_inv m (since_drain acc ops) b' \<and>
              totalEver b' = totalEver b + int (length (pushed ops))"
proof (induction ops arbitrary: acc b)
  case Nil
  then show ?case by simp
next
  case (Cons x xs)
  show ?case
  proof (cases x)
    case (OpPush c)
    from Push_inv[OF m Cons.prems, of c] obtain b1 where
      b1: "Push b c = Inr b1" "buf_inv m (acc @ c) b1"
          "totalEver b1 = totalEver b + int (length c)" by blast
    from Cons.IH[OF b1(2)] obtain b' where
      "run_ops b1 xs = Inr b'" "buf_inv m (since_drain (acc @ c) xs) b'"
      "totalEver b' = totalEver b1 + int (length (pushed xs))" by blast
    then show ?thesis using OpPush b1 by simp
  next
    case OpDrainChunks
    from DrainChunks_inv[OF Cons.prems] have
      d: "buf_inv m [] (snd (DrainChunks b))" "totalEver (snd (DrainChunks b)) = totalEver b"
      by simp_all
    from Cons.IH[OF d(1)] obtain b' where
      "run_ops (snd (DrainChunks b)) xs = Inr b'" "buf_inv m (since_drain [] xs) b'"
      "totalEver b' = totalEver (snd (DrainChunks b)) + int (length (pushed xs))" by blast
    then show ?thesis using OpDrainChunks d by simp
  qed
qed

lemma buf_inv_retained:
  assumes m: "0 \<le> m" and inv: "buf_inv m s b"
  shows "0 \<le> RetainedBytes b" "RetainedBytes b \<le> m"
        "RetainedBytes b + OmittedBytes b = int (length s)"
proof -
  note tl = buf_inv_tail_le[OF m inv]
  have hbv: "headBudget b = m div 2" and tbv: "tailBudget b = m - m div 2"
    and tby: "tailBytes b = int (length (concat (tail b)))"
    and om: "omitted b = int (length s) - headBytes b - tailBytes b"
    using inv unfolding buf_inv_def by blast+
  have "min (length s) (nat (m div 2)) \<le> nat (m div 2)" by (rule min.cobounded2)
  then have "int (min (length s) (nat (m div 2))) \<le> int (nat (m div 2))"
    by (simp only: of_nat_le_iff)
  also have "\<dots> = m div 2" using m by simp
  finally have "headBytes b \<le> m div 2" using tl(3) by simp
  then show "RetainedBytes b \<le> m" using tl(2) tbv by (simp add: RetainedBytes_def)
  show "0 \<le> RetainedBytes b" using tl(3) tby by (simp add: RetainedBytes_def)
  show "RetainedBytes b + OmittedBytes b = int (length s)"
    using om by (simp add: RetainedBytes_def OmittedBytes_def)
qed

lemma buf_inv_no_overflow:
  assumes m: "0 \<le> m" and inv: "buf_inv m s b" and fits: "int (length s) \<le> m"
  shows "OmittedBytes b = 0" "Snapshot b = s"
proof -
  define hb where "hb = nat (m div 2)"
  define tb where "tb = nat (m - m div 2)"
  have sum: "hb + tb = nat m" using half_bounds[OF m] by (simp add: hb_def tb_def)
  have I: "headBytes b = int (length (concat (head b)))"
      "tailBytes b = int (length (concat (tail b)))"
      "concat (head b) = take hb s"
      "concat (tail b) = drop (max hb (length s - tb)) s"
      "omitted b = int (length s) - headBytes b - tailBytes b"
    using inv unfolding buf_inv_def hb_def tb_def by simp_all
  have "length s \<le> hb + tb" using fits sum m by linarith
  then have mx: "max hb (length s - tb) = hb" by arith
  have cat: "concat (head b) @ concat (tail b) = s" unfolding I(3,4) mx by simp
  have ret: "headBytes b + tailBytes b = int (length s)"
  proof -
    have "headBytes b + tailBytes b = int (length (concat (head b) @ concat (tail b)))"
      using I(1,2) by simp
    then show ?thesis unfolding cat .
  qed
  show "OmittedBytes b = 0" using I(5) ret by (simp add: OmittedBytes_def)
  show "Snapshot b = s" using cat ret by (auto simp: Snapshot_def toBytesUnlocked_def)
qed

lemma buf_inv_overflow:
  assumes m: "0 \<le> m" and inv: "buf_inv m s b" and over: "m < int (length s)"
  shows "Snapshot b = take (nat (m div 2)) s @ drop (length s - nat (m - m div 2)) s"
    and "length (take (nat (m div 2)) s) = nat (m div 2)"
    and "length (drop (length s - nat (m - m div 2)) s) = nat (m - m div 2)"
proof -
  define hb where "hb = nat (m div 2)"
  define tb where "tb = nat (m - m div 2)"
  have sum: "hb + tb = nat m" using half_bounds[OF m] by (simp add: hb_def tb_def)
  have I: "headBytes b = int (length (concat (head b)))"
      "tailBytes b = int (length (concat (tail b)))"
      "concat (head b) = take hb s"
      "concat (tail b) = drop (max hb (length s - tb)) s"
    using inv unfolding buf_inv_def hb_def tb_def by simp_all
  have big: "hb + tb < length s" using over sum m by linarith
  then have mx: "max hb (length s - tb) = length s - tb" by arith
  show lh: "length (take hb s) = hb" using big by simp
  show lt: "length (drop (length s - tb) s) = tb" using big by simp
  show "Snapshot b = take hb s @ drop (length s - tb) s"
  proof (cases "headBytes b + tailBytes b = 0")
    case True
    then have "hb = 0 \<and> tb = 0" using I lh lt mx by simp
    then show ?thesis using True by (simp add: Snapshot_def toBytesUnlocked_def)
  next
    case False
    then show ?thesis using I(3,4) mx by (simp add: Snapshot_def toBytesUnlocked_def)
  qed
qed

lemma since_drain_pushes: "since_drain acc (map OpPush chunks) = acc @ concat chunks"
  by (induction chunks arbitrary: acc) simp_all

lemma pushed_pushes: "pushed (map OpPush chunks) = concat chunks"
  by (induction chunks) simp_all

lemma since_drain_no_drain:
  "OpDrainChunks \<notin> set ops \<Longrightarrow> since_drain acc ops = acc @ pushed ops"
proof (induction ops arbitrary: acc)
  case Nil
  then show ?case by simp
next
  case (Cons x xs)
  then show ?case by (cases x) simp_all
qed


text \<open>
  Claim C1, as the code has it. For every \<open>maxBytes \<ge> 0\<close> and every sequence of \<open>Push\<close> and
  \<open>DrainChunks\<close> calls on a new buffer, no call panics and afterwards:
  \<open>RetainedBytes \<le> maxBytes\<close>; \<open>RetainedBytes + OmittedBytes\<close> is the number of bytes
  pushed since the last \<open>DrainChunks\<close>; \<open>TotalWritten\<close> is the number of bytes ever
  pushed; the bytes pushed since the last \<open>DrainChunks\<close> are all bytes ever pushed when
  there was no \<open>DrainChunks\<close>; and whenever the bytes pushed since the last \<open>DrainChunks\<close>
  fit in \<open>maxBytes\<close>, \<open>OmittedBytes = 0\<close> and \<open>Snapshot\<close> is their concatenation in order.
\<close>

theorem HeadTailBuffer_bound:
  assumes m: "0 \<le> m"
  shows "\<exists>b. run_ops (NewHeadTailBuffer m) ops = Inr b \<and>
           RetainedBytes b \<le> m \<and>
           RetainedBytes b + OmittedBytes b = int (length (since_drain [] ops)) \<and>
           TotalWritten b = int (length (pushed ops)) \<and>
           (OpDrainChunks \<notin> set ops \<longrightarrow> since_drain [] ops = pushed ops) \<and>
           (int (length (since_drain [] ops)) \<le> m \<longrightarrow>
              OmittedBytes b = 0 \<and> Snapshot b = since_drain [] ops)"
proof -
  from run_ops_inv[OF m NewHeadTailBuffer_inv[OF m], of ops] obtain b where
    b: "run_ops (NewHeadTailBuffer m) ops = Inr b" "buf_inv m (since_drain [] ops) b"
       "totalEver b = totalEver (NewHeadTailBuffer m) + int (length (pushed ops))" by blast
  have tw: "TotalWritten b = int (length (pushed ops))"
    using b(3) by (simp add: TotalWritten_def NewHeadTailBuffer_def Let_def)
  have nd: "OpDrainChunks \<notin> set ops \<longrightarrow> since_drain [] ops = pushed ops"
    using since_drain_no_drain[of ops "[]"] by simp
  show ?thesis
    using b(1) buf_inv_retained(2,3)[OF m b(2)] tw nd buf_inv_no_overflow[OF m b(2)]
    by blast
qed

theorem HeadTailBuffer_bound_witness:
  "\<exists>b. run_ops (NewHeadTailBuffer 10)
          [OpPush ''0123456789'', OpPush ''ab'', OpDrainChunks, OpPush ''xyz''] = Inr b \<and>
       RetainedBytes b \<le> 10 \<and> RetainedBytes b + OmittedBytes b = 3 \<and>
       TotalWritten b = 15 \<and> OmittedBytes b = 0 \<and> Snapshot b = ''xyz''"
  using HeadTailBuffer_bound [of 10
      "[OpPush ''0123456789'', OpPush ''ab'', OpDrainChunks, OpPush ''xyz'']"]
  by simp

text \<open>
  Claim C1 as stated fails once \<open>DrainChunks\<close> is one of the operations: after
  \<open>Push("ab")\<close> and \<open>DrainChunks()\<close> on a buffer of capacity 10, \<open>RetainedBytes = 0\<close> and
  \<open>OmittedBytes = 0\<close> while \<open>TotalWritten = 2\<close>.
\<close>

theorem HeadTailBuffer_drain_counterexample:
  "counters (run_ops (NewHeadTailBuffer 10) [OpPush ''ab'', OpDrainChunks]) = Some (0, 0, 2)
   \<and> (0::int) + 0 \<noteq> 2"
  by (simp add: counters_def NewHeadTailBuffer_def Let_def go_quot_def Push_def pushUnlocked_def
      DrainChunks_def RetainedBytes_def OmittedBytes_def TotalWritten_def)

text \<open>
  Claim C2. For every \<open>maxBytes \<ge> 0\<close> and every sequence of \<open>Push\<close> calls on a new buffer
  whose total byte count exceeds \<open>maxBytes\<close>, no call panics and \<open>Snapshot\<close> is the first
  \<open>\<lfloor>maxBytes/2\<rfloor>\<close> bytes ever pushed followed by the last \<open>\<lceil>maxBytes/2\<rceil>\<close> bytes ever
  pushed (both parts have exactly these lengths).
\<close>

theorem HeadTailBuffer_head_tail_content:
  assumes m: "0 \<le> m" and over: "m < int (length (concat chunks))"
  shows "\<exists>b. run_ops (NewHeadTailBuffer m) (map OpPush chunks) = Inr b \<and>
           Snapshot b = take (nat (m div 2)) (concat chunks) @
                        drop (length (concat chunks) - nat (m - m div 2)) (concat chunks) \<and>
           length (take (nat (m div 2)) (concat chunks)) = nat (m div 2) \<and>
           length (drop (length (concat chunks) - nat (m - m div 2)) (concat chunks)) =
             nat (m - m div 2)"
proof -
  from run_ops_inv[OF m NewHeadTailBuffer_inv[OF m], of "map OpPush chunks"] obtain b where
    b: "run_ops (NewHeadTailBuffer m) (map OpPush chunks) = Inr b"
       "buf_inv m (since_drain [] (map OpPush chunks)) b" by blast
  have inv: "buf_inv m (concat chunks) b" using b(2) by (simp add: since_drain_pushes)
  show ?thesis using b(1) buf_inv_overflow[OF m inv over] by blast
qed

theorem HeadTailBuffer_head_tail_content_witness:
  "\<exists>b. run_ops (NewHeadTailBuffer 10) (map OpPush [''0123456789'', ''ab'']) = Inr b \<and>
       Snapshot b = ''01234'' @ ''789ab''"
  using HeadTailBuffer_head_tail_content [of 10 "[''0123456789'', ''ab'']"]
  by simp

section \<open>Approval gate (internal/workflow/approval.go)\<close>

text \<open>
  The conversation item of package \<open>models\<close>, with the fields the approval gate reads and
  writes. \<open>Success\<close> is a \<open>*bool\<close>, so \<open>None\<close> stands for the nil pointer.
\<close>

datatype ItemType =
  ItemTypeUserMessage | ItemTypeAssistantMessage | ItemTypeFunctionCall
  | ItemTypeFunctionCallOutput | ItemTypeTurnStarted | ItemTypeTurnComplete
  | ItemTypeCompaction | ItemTypeWebSearchCall

record FunctionCallOutputPayload =
  Content :: string
  Success :: "bool option"

record ConversationItem =
  Type :: ItemType
  CallID :: string
  Name :: string
  Arguments :: string
  Output :: "FunctionCallOutputPayload option"

text \<open>
  \<open>PendingApproval\<close> has the fields \<open>CallID\<close>, \<open>ToolName\<close>, \<open>Arguments\<close> and \<open>Reason\<close>;
  they carry the prefix \<open>Pending\<close> here to keep them apart from the item's fields.
\<close>

record PendingApproval =
  PendingCallID :: string
  PendingToolName :: string
  PendingArguments :: string
  PendingReason :: string

record ApprovalResponse =
  Approved :: "string list"
  Denied :: "string list"

datatype ExecApprovalRequirement = ApprovalSkip | ApprovalNeeded | ApprovalForbidden

datatype Decision = DecisionAllow | DecisionPrompt | DecisionForbidden | DecisionOther string

type_synonym ApprovalMode = string

text \<open>
  Modelled from the spec: the declarations of \<open>models.ApprovalNever\<close> and
  \<open>models.ApprovalOnFailure\<close> are not among the source files. The spec names the modes
  \<open>never\<close>, \<open>on_failure\<close> and \<open>unless_trusted\<close>; \<open>developer_prompt.go\<close> matches the mode
  against \<open>"never"\<close> and \<open>"unless-trusted"\<close>, so the hyphenated spelling is used.
\<close>

definition ApprovalNever :: ApprovalMode where
  "ApprovalNever = ''never''"

definition ApprovalOnFailure :: ApprovalMode where
  "ApprovalOnFailure = ''on-failure''"

text \<open>A value of Go's \<open>interface{}\<close>, as \<open>encoding/json\<close> and the tool handlers see it.\<close>

datatype go_value =
  VNil | VBool bool | VFloat64 rat | VInt int | VInt64 int | VString string
  | VArray "go_value list" | VObject "(string \<times> go_value) list"

text \<open>
  What the gate calls outside its own file, as parameters: \<open>isCollabToolCall\<close>,
  \<open>execpolicy.LoadExecPolicyFromSource\<close> (\<open>None\<close> when it returns an error; a policy
  manager is represented by its \<open>GetEvaluation\<close>, which returns the decision and the
  justification), \<open>EvaluateCommand\<close> of a manager over the empty policy,
  \<open>json.Unmarshal\<close> into a \<open>map[string]interface{}\<close> (\<open>None\<close> on error) and
  \<open>shell.DetectUserShell().DeriveExecArgs\<close>.
\<close>

type_synonym ExecPolicyManager = "string list \<Rightarrow> string \<Rightarrow> Decision \<times> string"

record externals =
  isCollabToolCall :: "string \<Rightarrow> bool"
  LoadExecPolicyFromSource :: "string \<Rightarrow> ExecPolicyManager option"
  EvaluateCommand :: "string list \<Rightarrow> string \<Rightarrow> ExecApprovalRequirement"
  Unmarshal :: "string \<Rightarrow> (string \<rightharpoonup> go_value) option"
  DeriveExecArgs :: "string \<Rightarrow> bool \<Rightarrow> string list"

definition decisionToApprovalReq :: "Decision \<Rightarrow> ExecApprovalRequirement" where
  "decisionToApprovalReq d =
     (case d of
        DecisionAllow \<Rightarrow> ApprovalSkip
      | DecisionPrompt \<Rightarrow> ApprovalNeeded
      | DecisionForbidden \<Rightarrow> ApprovalForbidden
      | DecisionOther _ \<Rightarrow> ApprovalNeeded)"

definition evaluateCommandVecApproval ::
  "externals \<Rightarrow> string list \<Rightarrow> ExecPolicyManager option \<Rightarrow> ApprovalMode
     \<Rightarrow> ExecApprovalRequirement \<times> string" where
  "evaluateCommandVecApproval ext cmdVec policyMgr mode =
     (case policyMgr of
        Some mgr \<Rightarrow>
          (case mgr cmdVec mode of
             (decision, justification) \<Rightarrow> (decisionToApprovalReq decision, justification))
      | None \<Rightarrow>
          if mode = ApprovalNever \<or> mode = '''' then (ApprovalSkip, '''')
          else if mode = ApprovalOnFailure then (ApprovalSkip, '''')
          else (EvaluateCommand ext cmdVec mode, ''''))"

text \<open>The loop that converts \<open>[]interface{}\<close> to \<open>[]string\<close>; \<open>None\<close> at a non-string.\<close>

fun stringElements :: "go_value list \<Rightarrow> string list option" where
  "stringElements [] = Some []"
| "stringElements (VString s # vs) =
     (case stringElements vs of None \<Rightarrow> None | Some ss \<Rightarrow> Some (s # ss))"
| "stringElements (_ # vs) = None"

definition evaluateShellArrayApproval ::
  "externals \<Rightarrow> string \<Rightarrow> ExecPolicyManager option \<Rightarrow> ApprovalMode
     \<Rightarrow> ExecApprovalRequirement \<times> string" where
  "evaluateShellArrayApproval ext arguments policyMgr mode =
     (case Unmarshal ext arguments of
        None \<Rightarrow> (ApprovalNeeded, ''cannot parse arguments'')
      | Some args \<Rightarrow>
          (case args ''command'' of
             Some (VArray cmdArr) \<Rightarrow>
               if length cmdArr = 0 then (ApprovalNeeded, ''missing command'')
               else
                 (case stringElements cmdArr of
                    None \<Rightarrow> (ApprovalNeeded, ''command array contains non-string element'')
                  | Some cmdVec \<Rightarrow> evaluateCommandVecApproval ext cmdVec policyMgr mode)
           | _ \<Rightarrow> (ApprovalNeeded, ''missing command'')))"

definition evaluateShellCommandApproval ::
  "externals \<Rightarrow> string \<Rightarrow> ExecPolicyManager option \<Rightarrow> ApprovalMode
     \<Rightarrow> ExecApprovalRequirement \<times> string" where
  "evaluateShellCommandApproval ext arguments policyMgr mode =
     (case Unmarshal ext arguments of
        None \<Rightarrow> (ApprovalNeeded, ''cannot parse arguments'')
      | Some args \<Rightarrow>
          (case args ''command'' of
             Some (VString cmd) \<Rightarrow>
               if cmd = '''' then (ApprovalNeeded, ''missing command'')
               else
                 (let login = (case args ''login'' of Some (VBool loginVal) \<Rightarrow> loginVal
                               | _ \<Rightarrow> True);
                      cmdVec = DeriveExecArgs ext cmd login
                  in evaluateCommandVecApproval ext cmdVec policyMgr mode)
           | _ \<Rightarrow> (ApprovalNeeded, ''missing command'')))"

definition evaluateToolApproval ::
  "externals \<Rightarrow> string \<Rightarrow> string \<Rightarrow> ExecPolicyManager option \<Rightarrow> ApprovalMode
     \<Rightarrow> ExecApprovalRequirement \<times> string" where
  "evaluateToolApproval ext toolName arguments policyMgr mode =
     (if isCollabToolCall ext toolName then (ApprovalSkip, '''')
      else if toolName \<in> {''read_file'', ''list_dir'', ''grep_files'', ''request_user_input'',
                           ''update_plan''}
      then (ApprovalSkip, '''')
      else if toolName = ''shell'' then evaluateShellArrayApproval ext arguments policyMgr mode
      else if toolName = ''shell_command''
      then evaluateShellCommandApproval ext arguments policyMgr mode
      else if toolName \<in> {''write_file'', ''apply_patch''}
      then (if mode = ApprovalNever then (ApprovalSkip, '''')
            else (ApprovalNeeded, ''mutating file operation''))
      else (if mode = ApprovalNever then (ApprovalSkip, '''')
            else (ApprovalNeeded, ''unknown tool'')))"

definition forbiddenOutput :: "ConversationItem \<Rightarrow> string \<Rightarrow> ConversationItem" where
  "forbiddenOutput fc reason =
     (let msg = (if reason \<noteq> '''' then ''Forbidden: '' @ reason
                 else ''This command is forbidden by exec policy.'')
      in \<lparr>Type = ItemTypeFunctionCallOutput, CallID = CallID fc, Name = '''', Arguments = '''',
          Output = Some \<lparr>Content = msg, Success = Some False\<rparr>\<rparr>)"

text \<open>The \<open>for\<close> loop of \<open>classifyToolsForApproval\<close>, with the two slices it appends to.\<close>

fun classifyLoop ::
  "externals \<Rightarrow> ExecPolicyManager option \<Rightarrow> ApprovalMode \<Rightarrow> ConversationItem list
     \<Rightarrow> PendingApproval list \<Rightarrow> ConversationItem list
     \<Rightarrow> PendingApproval list \<times> ConversationItem list" where
  "classifyLoop ext policyMgr mode [] pending forbidden = (pending, forbidden)"
| "classifyLoop ext policyMgr mode (fc # fcs) pending forbidden =
     (case evaluateToolApproval ext (Name fc) (Arguments fc) policyMgr mode of
        (ApprovalSkip, reason) \<Rightarrow> classifyLoop ext policyMgr mode fcs pending forbidden
      | (ApprovalNeeded, reason) \<Rightarrow>
          classifyLoop ext policyMgr mode fcs
            (pending @ [\<lparr>PendingCallID = CallID fc, PendingToolName = Name fc,
                         PendingArguments = Arguments fc, PendingReason = reason\<rparr>])
            forbidden
      | (ApprovalForbidden, reason) \<Rightarrow>
          classifyLoop ext policyMgr mode fcs pending (forbidden @ [forbiddenOutput fc reason]))"

definition loadPolicy :: "externals \<Rightarrow> string \<Rightarrow> ExecPolicyManager option" where
  "loadPolicy ext policyRules =
     (if policyRules \<noteq> '''' then LoadExecPolicyFromSource ext policyRules else None)"

definition classifyToolsForApproval ::
  "externals \<Rightarrow> ConversationItem list \<Rightarrow> ApprovalMode \<Rightarrow> string
     \<Rightarrow> PendingApproval list \<times> ConversationItem list" where
  "classifyToolsForApproval ext functionCalls mode policyRules =
     (if mode = '''' \<or> mode = ApprovalNever then ([], [])
      else classifyLoop ext (loadPolicy ext policyRules) mode functionCalls [] [])"

definition deniedOutput :: "ConversationItem \<Rightarrow> ConversationItem" where
  "deniedOutput fc =
     \<lparr>Type = ItemTypeFunctionCallOutput, CallID = CallID fc, Name = '''', Arguments = '''',
      Output = Some \<lparr>Content = ''User denied execution of this tool call.'',
                      Success = Some False\<rparr>\<rparr>"

text \<open>\<open>deniedSet\<close> is a \<open>map[string]bool\<close>; reading a missing key gives \<open>false\<close>.\<close>

fun buildDeniedSet :: "string list \<Rightarrow> (string \<rightharpoonup> bool) \<Rightarrow> (string \<rightharpoonup> bool)" where
  "buildDeniedSet [] deniedSet = deniedSet"
| "buildDeniedSet (ident # ids) deniedSet = buildDeniedSet ids (deniedSet(ident \<mapsto> True))"

definition lookupBool :: "(string \<rightharpoonup> bool) \<Rightarrow> string \<Rightarrow> bool" where
  "lookupBool m k = (case m k of None \<Rightarrow> False | Some v \<Rightarrow> v)"

fun decisionLoop ::
  "(string \<rightharpoonup> bool) \<Rightarrow> ConversationItem list \<Rightarrow> ConversationItem list
     \<Rightarrow> ConversationItem list \<Rightarrow> ConversationItem list \<times> ConversationItem list" where
  "decisionLoop deniedSet [] approved denied = (approved, denied)"
| "decisionLoop deniedSet (fc # fcs) approved denied =
     (if lookupBool deniedSet (CallID fc)
      then decisionLoop deniedSet fcs approved (denied @ [deniedOutput fc])
      else decisionLoop deniedSet fcs (approved @ [fc]) denied)"

definition applyApprovalDecision ::
  "ConversationItem list \<Rightarrow> ApprovalResponse option
     \<Rightarrow> ConversationItem list \<times> ConversationItem list" where
  "applyApprovalDecision functionCalls resp =
     (case resp of
        None \<Rightarrow> (functionCalls, [])
      | Some r \<Rightarrow> decisionLoop (buildDeniedSet (Denied r) Map.empty) functionCalls [] [])"


lemma classifyLoop_forbidden:
  "snd (classifyLoop ext pm mode calls pending forbidden) =
     forbidden @ List.map_filter
       (\<lambda>fc. case evaluateToolApproval ext (Name fc) (Arguments fc) pm mode of
               (ApprovalForbidden, reason) \<Rightarrow> Some (forbiddenOutput fc reason)
             | _ \<Rightarrow> None) calls"
proof (induction calls arbitrary: pending forbidden)
  case Nil
  then show ?case by (simp add: List.map_filter_simps)
next
  case (Cons fc fcs)
  obtain req reason where e: "evaluateToolApproval ext (Name fc) (Arguments fc) pm mode = (req, reason)"
    by (cases "evaluateToolApproval ext (Name fc) (Arguments fc) pm mode")
  show ?case using Cons.IH e by (cases req) (simp_all add: List.map_filter_simps)
qed

lemma classifyLoop_pending:
  "fst (classifyLoop ext pm mode calls pending forbidden) =
     pending @ List.map_filter
       (\<lambda>fc. case evaluateToolApproval ext (Name fc) (Arguments fc) pm mode of
               (ApprovalNeeded, reason) \<Rightarrow>
                 Some \<lparr>PendingCallID = CallID fc, PendingToolName = Name fc,
                       PendingArguments = Arguments fc, PendingReason = reason\<rparr>
             | _ \<Rightarrow> None) calls"
proof (induction calls arbitrary: pending forbidden)
  case Nil
  then show ?case by (simp add: List.map_filter_simps)
next
  case (Cons fc fcs)
  obtain req reason where e: "evaluateToolApproval ext (Name fc) (Arguments fc) pm mode = (req, reason)"
    by (cases "evaluateToolApproval ext (Name fc) (Arguments fc) pm mode")
  show ?case using Cons.IH e by (cases req) (simp_all add: List.map_filter_simps)
qed

lemma buildDeniedSet_lookup:
  "lookupBool (buildDeniedSet ids m) k \<longleftrightarrow> k \<in> set ids \<or> lookupBool m k"
  by (induction ids arbitrary: m) (auto simp: lookupBool_def)

lemma decisionLoop_eq:
  "decisionLoop ds calls approved denied =
     (approved @ filter (\<lambda>fc. \<not> lookupBool ds (CallID fc)) calls,
      denied @ map deniedOutput (filter (\<lambda>fc. lookupBool ds (CallID fc)) calls))"
  by (induction calls arbitrary: approved denied) simp_all

lemma applyApprovalDecision_Some:
  "applyApprovalDecision calls (Some r) =
     (filter (\<lambda>fc. CallID fc \<notin> set (Denied r)) calls,
      map deniedOutput (filter (\<lambda>fc. CallID fc \<in> set (Denied r)) calls))"
proof -
  have "\<And>k. lookupBool (buildDeniedSet (Denied r) Map.empty) k \<longleftrightarrow> k \<in> set (Denied r)"
    by (simp add: buildDeniedSet_lookup) (simp add: lookupBool_def)
  then show ?thesis by (simp add: applyApprovalDecision_def decisionLoop_eq)
qed


text \<open>
  Claim C9. With a non-nil response, \<open>applyApprovalDecision\<close> approves exactly the calls
  whose call id is not in the denied list, in their order, and turns the others into denied
  outputs; a nil response approves every call; a call whose id is in neither the approved
  nor the denied list is approved; and two responses with the same set of denied ids (in any
  order, with any approved lists) give the same result.
\<close>

theorem applyApprovalDecision_partition:
  "applyApprovalDecision calls (Some r) =
     (filter (\<lambda>fc. CallID fc \<notin> set (Denied r)) calls,
      map deniedOutput (filter (\<lambda>fc. CallID fc \<in> set (Denied r)) calls))
   \<and> applyApprovalDecision calls None = (calls, [])
   \<and> (\<forall>fc \<in> set calls. CallID fc \<notin> set (Approved r) \<and> CallID fc \<notin> set (Denied r)
         \<longrightarrow> fc \<in> set (fst (applyApprovalDecision calls (Some r))))
   \<and> (set (Denied r) = set (Denied r')
         \<longrightarrow> applyApprovalDecision calls (Some r) = applyApprovalDecision calls (Some r'))"
  by (simp add: applyApprovalDecision_Some) (simp add: applyApprovalDecision_def)

definition call1 :: ConversationItem where
  "call1 = \<lparr>Type = ItemTypeFunctionCall, CallID = ''c1'', Name = ''write_file'',
            Arguments = ''{}'', Output = None\<rparr>"

definition call2 :: ConversationItem where
  "call2 = \<lparr>Type = ItemTypeFunctionCall, CallID = ''c2'', Name = ''shell'',
            Arguments = ''{}'', Output = None\<rparr>"

theorem applyApprovalDecision_partition_witness:
  "applyApprovalDecision [call1, call2] (Some \<lparr>Approved = [], Denied = [''c2'']\<rparr>) =
     ([call1], [deniedOutput call2])
   \<and> call1 \<in> set (fst (applyApprovalDecision [call1, call2]
                          (Some \<lparr>Approved = [], Denied = [''c2'']\<rparr>)))
   \<and> applyApprovalDecision [call1, call2] (Some \<lparr>Approved = [], Denied = [''c2'']\<rparr>) =
     applyApprovalDecision [call1, call2] (Some \<lparr>Approved = [''c2''], Denied = [''c2'', ''c2'']\<rparr>)"
  using applyApprovalDecision_partition [of "[call1, call2]"
      "\<lparr>Approved = [], Denied = [''c2'']\<rparr>" "\<lparr>Approved = [''c2''], Denied = [''c2'', ''c2'']\<rparr>"]
  by (simp add: call1_def call2_def applyApprovalDecision_def lookupBool_def)

definition rmPolicyExternals :: externals where
  "rmPolicyExternals =
     \<lparr>isCollabToolCall = (\<lambda>name. False),
      LoadExecPolicyFromSource = (\<lambda>src. Some (\<lambda>cmdVec mode.
         if take 1 cmdVec = [''rm''] then (DecisionForbidden, '''') else (DecisionAllow, ''''))),
      EvaluateCommand = (\<lambda>cmdVec mode. ApprovalNeeded),
      Unmarshal = (\<lambda>src. if src = ''{\"command\":[\"rm\",\"-rf\",\"/\"]}''
         then Some [''command'' \<mapsto> VArray [VString ''rm'', VString ''-rf'', VString ''/'']]
         else None),
      DeriveExecArgs = (\<lambda>cmd login. [''bash'', if login then ''-lc'' else ''-c'', cmd])\<rparr>"

definition rmCall :: ConversationItem where
  "rmCall = \<lparr>Type = ItemTypeFunctionCall, CallID = ''call_1'', Name = ''shell'',
             Arguments = ''{\"command\":[\"rm\",\"-rf\",\"/\"]}'', Output = None\<rparr>"

definition writeCall :: ConversationItem where
  "writeCall = \<lparr>Type = ItemTypeFunctionCall, CallID = ''call_2'', Name = ''write_file'',
                Arguments = ''{}'', Output = None\<rparr>"

lemma evaluateToolApproval_rmCall:
  "evaluateToolApproval rmPolicyExternals (Name rmCall) (Arguments rmCall)
     (loadPolicy rmPolicyExternals ''forbid rm'') ''unless-trusted'' = (ApprovalForbidden, '''')"
  by (simp add: evaluateToolApproval_def rmPolicyExternals_def rmCall_def loadPolicy_def
      evaluateShellArrayApproval_def evaluateCommandVecApproval_def decisionToApprovalReq_def)

lemma classify_rmCall:
  "classifyToolsForApproval rmPolicyExternals [rmCall] ''unless-trusted'' ''forbid rm'' =
     ([], [forbiddenOutput rmCall ''''])"
  by (simp add: classifyToolsForApproval_def ApprovalNever_def evaluateToolApproval_rmCall)



lemma evaluateToolApproval_writeCall:
  "evaluateToolApproval rmPolicyExternals (Name writeCall) (Arguments writeCall)
     (loadPolicy rmPolicyExternals ''forbid rm'') ''unless-trusted'' =
     (ApprovalNeeded, ''mutating file operation'')"
  by (simp add: evaluateToolApproval_def rmPolicyExternals_def writeCall_def ApprovalNever_def)

text \<open>
  Modelled from the spec: the step of the turn controller that passes a batch of function
  calls through the gate is not among the source files. The spec (4.2 step 5, 4.3) has it
  classify the calls; forbidden calls get their synthetic outputs at once and go no
  further; when some call needs approval the gate waits for the response, approved calls
  proceed to execution and denied calls get their synthetic outputs. \<open>gateBatch\<close> returns
  the calls that proceed to execution and the synthetic outputs; a forbidden call is
  recognised by the call id its output carries.
\<close>

definition gateBatch ::
  "externals \<Rightarrow> ConversationItem list \<Rightarrow> ApprovalMode \<Rightarrow> string \<Rightarrow> ApprovalResponse option
     \<Rightarrow> ConversationItem list \<times> ConversationItem list" where
  "gateBatch ext functionCalls mode policyRules resp =
     (case classifyToolsForApproval ext functionCalls mode policyRules of
        (pending, forbidden) \<Rightarrow>
          (let allowed = filter (\<lambda>fc. CallID fc \<notin> set (map CallID forbidden)) functionCalls
           in case (if pending = [] then (allowed, [])
                    else applyApprovalDecision allowed resp) of
                (approved, denied) \<Rightarrow> (approved, forbidden @ denied)))"

lemma applyApprovalDecision_subset: "set (fst (applyApprovalDecision xs resp)) \<subseteq> set xs"
  by (cases resp) (auto simp: applyApprovalDecision_Some, simp add: applyApprovalDecision_def)

lemma forbidden_member:
  assumes fc: "fc \<in> set calls"
      and md: "mode \<noteq> ''''" "mode \<noteq> ApprovalNever"
      and ev: "evaluateToolApproval ext (Name fc) (Arguments fc) (loadPolicy ext policyRules) mode =
                 (ApprovalForbidden, reason)"
  shows "forbiddenOutput fc reason \<in> set (snd (classifyToolsForApproval ext calls mode policyRules))"
proof -
  let ?f = "\<lambda>fc. case evaluateToolApproval ext (Name fc) (Arguments fc)
                       (loadPolicy ext policyRules) mode of
                  (ApprovalForbidden, reason) \<Rightarrow> Some (forbiddenOutput fc reason)
                | _ \<Rightarrow> None"
  have "?f fc = Some (forbiddenOutput fc reason)" using ev by simp
  then have "forbiddenOutput fc reason \<in> set (List.map_filter ?f calls)"
    using fc by (force simp: List.map_filter_def)
  then show ?thesis using md by (simp add: classifyToolsForApproval_def classifyLoop_forbidden)
qed

lemma gateBatch_approved_subset:
  "set (fst (gateBatch ext calls mode policyRules resp)) \<subseteq>
     {fc \<in> set calls.
        CallID fc \<notin> CallID ` set (snd (classifyToolsForApproval ext calls mode policyRules))}"
proof -
  obtain pending forbidden where c:
    "classifyToolsForApproval ext calls mode policyRules = (pending, forbidden)"
    by (cases "classifyToolsForApproval ext calls mode policyRules")
  let ?allowed = "filter (\<lambda>fc. CallID fc \<notin> set (map CallID forbidden)) calls"
  have "set (fst (if pending = [] then (?allowed, [])
                  else applyApprovalDecision ?allowed resp)) \<subseteq> set ?allowed"
    using applyApprovalDecision_subset[of ?allowed resp] by simp
  then show ?thesis
    by (auto simp: gateBatch_def c Let_def split: prod.splits)
qed

lemma gateBatch_outputs:
  "set (snd (classifyToolsForApproval ext calls mode policyRules)) \<subseteq>
     set (snd (gateBatch ext calls mode policyRules resp))"
  by (auto simp: gateBatch_def Let_def split: prod.splits)

lemma gateBatch_denied:
  assumes "fst (classifyToolsForApproval ext calls mode policyRules) \<noteq> []"
      and "CallID fc \<in> set (Denied r)"
  shows "fc \<notin> set (fst (gateBatch ext calls mode policyRules (Some r)))"
  using assms by (auto simp: gateBatch_def Let_def applyApprovalDecision_Some split: prod.splits)

text \<open>
  Claim C5, as the code has it. A call whose id is in the denied list of the response is
  not among the approved calls (so it is not executed) and has its denied output in the
  result; every denied output has \<open>success = false\<close> and the content
  \<open>"User denied execution of this tool call."\<close>. The forbidden items that
  \<open>classifyToolsForApproval\<close> returns are exactly the outputs built, in order, for the
  calls that evaluate to forbidden; such an output is a \<open>function_call_output\<close> with the
  call's id and \<open>success = false\<close>, whose content is \<open>"Forbidden: "\<close> followed by the
  reason when the reason is not empty and \<open>"This command is forbidden by exec policy."\<close>
  otherwise; so the content starts with \<open>"Forbidden"\<close> exactly when the reason is not
  empty. In the gate step (\<open>gateBatch\<close>), a call that evaluates to forbidden is not among
  the calls that proceed to execution, whatever the response, and its forbidden output is
  among the outputs; and when some call needs approval, a call whose id the response denies
  is not among the calls that proceed to execution.
\<close>

theorem denied_and_forbidden_outputs:
  "(\<forall>fc \<in> set calls. CallID fc \<in> set (Denied r) \<longrightarrow>
      fc \<notin> set (fst (applyApprovalDecision calls (Some r))) \<and>
      deniedOutput fc \<in> set (snd (applyApprovalDecision calls (Some r))))
   \<and> (\<forall>item \<in> set (snd (applyApprovalDecision calls resp)).
        Type item = ItemTypeFunctionCallOutput \<and>
        Output item = Some \<lparr>Content = ''User denied execution of this tool call.'',
                             Success = Some False\<rparr>)
   \<and> snd (classifyToolsForApproval ext calls mode policyRules) =
       (if mode = '''' \<or> mode = ApprovalNever then []
        else List.map_filter
          (\<lambda>fc. case evaluateToolApproval ext (Name fc) (Arguments fc)
                       (loadPolicy ext policyRules) mode of
                  (ApprovalForbidden, reason) \<Rightarrow> Some (forbiddenOutput fc reason)
                | _ \<Rightarrow> None) calls)
   \<and> Type (forbiddenOutput fc' reason') = ItemTypeFunctionCallOutput
   \<and> CallID (forbiddenOutput fc' reason') = CallID fc'
   \<and> Output (forbiddenOutput fc' reason') =
       Some \<lparr>Content = (if reason' \<noteq> '''' then ''Forbidden: '' @ reason'
                         else ''This command is forbidden by exec policy.''),
             Success = Some False\<rparr>
   \<and> (prefix ''Forbidden''
         (if reason' \<noteq> '''' then ''Forbidden: '' @ reason'
          else ''This command is forbidden by exec policy.'') \<longleftrightarrow> reason' \<noteq> '''')
   \<and> (\<forall>fc \<in> set calls.
        mode \<noteq> '''' \<and> mode \<noteq> ApprovalNever \<and>
        fst (evaluateToolApproval ext (Name fc) (Arguments fc)
               (loadPolicy ext policyRules) mode) = ApprovalForbidden \<longrightarrow>
        fc \<notin> set (fst (gateBatch ext calls mode policyRules resp)) \<and>
        forbiddenOutput fc
          (snd (evaluateToolApproval ext (Name fc) (Arguments fc)
                  (loadPolicy ext policyRules) mode))
          \<in> set (snd (gateBatch ext calls mode policyRules resp)))
   \<and> (\<forall>fc \<in> set calls.
        fst (classifyToolsForApproval ext calls mode policyRules) \<noteq> [] \<and>
        CallID fc \<in> set (Denied r) \<longrightarrow>
        fc \<notin> set (fst (gateBatch ext calls mode policyRules (Some r))))"
proof -
  have d: "\<forall>item \<in> set (snd (applyApprovalDecision calls resp)).
        Type item = ItemTypeFunctionCallOutput \<and>
        Output item = Some \<lparr>Content = ''User denied execution of this tool call.'',
                             Success = Some False\<rparr>"
  proof (cases resp)
    case None
    then show ?thesis by (simp add: applyApprovalDecision_def)
  next
    case (Some r0)
    then show ?thesis by (auto simp: applyApprovalDecision_Some deniedOutput_def)
  qed
  have a: "\<forall>fc \<in> set calls. CallID fc \<in> set (Denied r) \<longrightarrow>
      fc \<notin> set (fst (applyApprovalDecision calls (Some r))) \<and>
      deniedOutput fc \<in> set (snd (applyApprovalDecision calls (Some r)))"
    by (auto simp: applyApprovalDecision_Some)
  have c: "snd (classifyToolsForApproval ext calls mode policyRules) =
       (if mode = '''' \<or> mode = ApprovalNever then []
        else List.map_filter
          (\<lambda>fc. case evaluateToolApproval ext (Name fc) (Arguments fc)
                       (loadPolicy ext policyRules) mode of
                  (ApprovalForbidden, reason) \<Rightarrow> Some (forbiddenOutput fc reason)
                | _ \<Rightarrow> None) calls)"
    by (simp add: classifyToolsForApproval_def classifyLoop_forbidden)
  have f: "Type (forbiddenOutput fc' reason') = ItemTypeFunctionCallOutput
   \<and> CallID (forbiddenOutput fc' reason') = CallID fc'
   \<and> Output (forbiddenOutput fc' reason') =
       Some \<lparr>Content = (if reason' \<noteq> '''' then ''Forbidden: '' @ reason'
                         else ''This command is forbidden by exec policy.''),
             Success = Some False\<rparr>"
    by (simp add: forbiddenOutput_def)
  have p: "prefix ''Forbidden''
         (if reason' \<noteq> '''' then ''Forbidden: '' @ reason'
          else ''This command is forbidden by exec policy.'') \<longleftrightarrow> reason' \<noteq> ''''"
    by simp
  have g: "\<forall>fc \<in> set calls.
        mode \<noteq> '''' \<and> mode \<noteq> ApprovalNever \<and>
        fst (evaluateToolApproval ext (Name fc) (Arguments fc)
               (loadPolicy ext policyRules) mode) = ApprovalForbidden \<longrightarrow>
        fc \<notin> set (fst (gateBatch ext calls mode policyRules resp)) \<and>
        forbiddenOutput fc
          (snd (evaluateToolApproval ext (Name fc) (Arguments fc)
                  (loadPolicy ext policyRules) mode))
          \<in> set (snd (gateBatch ext calls mode policyRules resp))"
  proof (intro ballI impI)
    fix fc
    assume fc: "fc \<in> set calls"
      and h: "mode \<noteq> '''' \<and> mode \<noteq> ApprovalNever \<and>
        fst (evaluateToolApproval ext (Name fc) (Arguments fc)
               (loadPolicy ext policyRules) mode) = ApprovalForbidden"
    define reason where "reason = snd (evaluateToolApproval ext (Name fc) (Arguments fc)
                  (loadPolicy ext policyRules) mode)"
    have ev: "evaluateToolApproval ext (Name fc) (Arguments fc) (loadPolicy ext policyRules) mode =
                (ApprovalForbidden, reason)"
      using h by (simp add: reason_def prod_eq_iff)
    have m: "forbiddenOutput fc reason \<in>
               set (snd (classifyToolsForApproval ext calls mode policyRules))"
      using forbidden_member[OF fc _ _ ev] h by blast
    have "CallID (forbiddenOutput fc reason) = CallID fc" by (simp add: forbiddenOutput_def)
    with m have "CallID fc \<in>
        CallID ` set (snd (classifyToolsForApproval ext calls mode policyRules))"
      by (metis imageI)
    then have "fc \<notin> set (fst (gateBatch ext calls mode policyRules resp))"
      using gateBatch_approved_subset[of ext calls mode policyRules resp] by blast
    moreover have "forbiddenOutput fc reason \<in> set (snd (gateBatch ext calls mode policyRules resp))"
      using m gateBatch_outputs[of ext calls mode policyRules resp] by blast
    ultimately show "fc \<notin> set (fst (gateBatch ext calls mode policyRules resp)) \<and>
        forbiddenOutput fc
          (snd (evaluateToolApproval ext (Name fc) (Arguments fc)
                  (loadPolicy ext policyRules) mode))
          \<in> set (snd (gateBatch ext calls mode policyRules resp))"
      unfolding reason_def by blast
  qed
  have gd: "\<forall>fc \<in> set calls.
        fst (classifyToolsForApproval ext calls mode policyRules) \<noteq> [] \<and>
        CallID fc \<in> set (Denied r) \<longrightarrow>
        fc \<notin> set (fst (gateBatch ext calls mode policyRules (Some r)))"
    using gateBatch_denied by blast
  show ?thesis using a d c f p g gd by blast
qed

lemma classify_rm_write:
  "classifyToolsForApproval rmPolicyExternals [rmCall, writeCall] ''unless-trusted'' ''forbid rm'' =
     ([\<lparr>PendingCallID = CallID writeCall, PendingToolName = Name writeCall,
        PendingArguments = Arguments writeCall, PendingReason = ''mutating file operation''\<rparr>],
      [forbiddenOutput rmCall ''''])"
  by (simp add: classifyToolsForApproval_def ApprovalNever_def evaluateToolApproval_rmCall
      evaluateToolApproval_writeCall)

theorem denied_and_forbidden_outputs_witness:
  "applyApprovalDecision [rmCall, writeCall] (Some \<lparr>Approved = [], Denied = [''call_2'']\<rparr>) =
     ([rmCall], [deniedOutput writeCall])
   \<and> Output (deniedOutput writeCall) =
       Some \<lparr>Content = ''User denied execution of this tool call.'', Success = Some False\<rparr>
   \<and> snd (classifyToolsForApproval rmPolicyExternals [rmCall, writeCall] ''unless-trusted''
           ''forbid rm'') = [forbiddenOutput rmCall '''']
   \<and> Output (forbiddenOutput rmCall ''no rm'') =
       Some \<lparr>Content = ''Forbidden: no rm'', Success = Some False\<rparr>
   \<and> prefix ''Forbidden'' ''Forbidden: no rm''
   \<and> rmCall \<notin> set (fst (gateBatch rmPolicyExternals [rmCall, writeCall] ''unless-trusted''
                          ''forbid rm'' (Some \<lparr>Approved = [], Denied = [''call_2'']\<rparr>)))
   \<and> forbiddenOutput rmCall '''' \<in>
       set (snd (gateBatch rmPolicyExternals [rmCall, writeCall] ''unless-trusted''
                   ''forbid rm'' (Some \<lparr>Approved = [], Denied = [''call_2'']\<rparr>)))
   \<and> writeCall \<notin> set (fst (gateBatch rmPolicyExternals [rmCall, writeCall] ''unless-trusted''
                          ''forbid rm'' (Some \<lparr>Approved = [], Denied = [''call_2'']\<rparr>)))"
proof -
  note T = denied_and_forbidden_outputs [of "[rmCall, writeCall]"
      "\<lparr>Approved = [], Denied = [''call_2'']\<rparr>"
      "Some \<lparr>Approved = [], Denied = [''call_2'']\<rparr>" rmPolicyExternals
      "''unless-trusted''" "''forbid rm''" rmCall "''no rm''"]
  have ids: "CallID rmCall = ''call_1''" "CallID writeCall = ''call_2''"
    by (simp_all add: rmCall_def writeCall_def)
  have c1: "applyApprovalDecision [rmCall, writeCall]
              (Some \<lparr>Approved = [], Denied = [''call_2'']\<rparr>) =
            ([rmCall], [deniedOutput writeCall])"
    by (simp add: applyApprovalDecision_Some ids)
  have "deniedOutput writeCall \<in> set (snd (applyApprovalDecision [rmCall, writeCall]
              (Some \<lparr>Approved = [], Denied = [''call_2'']\<rparr>)))"
    unfolding c1 by simp
  with T have c2: "Output (deniedOutput writeCall) =
       Some \<lparr>Content = ''User denied execution of this tool call.'', Success = Some False\<rparr>"
    by blast
  have c3: "snd (classifyToolsForApproval rmPolicyExternals [rmCall, writeCall]
        ''unless-trusted'' ''forbid rm'') = [forbiddenOutput rmCall '''']"
    by (simp add: classify_rm_write)
  from T have c4: "Output (forbiddenOutput rmCall ''no rm'') =
       Some \<lparr>Content = ''Forbidden: no rm'', Success = Some False\<rparr>"
    by simp
  from T have c5: "prefix ''Forbidden'' ''Forbidden: no rm''" by simp
  have md: "''unless-trusted'' \<noteq> '''' \<and> ''unless-trusted'' \<noteq> ApprovalNever"
    by (simp add: ApprovalNever_def)
  have ev: "fst (evaluateToolApproval rmPolicyExternals (Name rmCall) (Arguments rmCall)
               (loadPolicy rmPolicyExternals ''forbid rm'') ''unless-trusted'') = ApprovalForbidden"
       "snd (evaluateToolApproval rmPolicyExternals (Name rmCall) (Arguments rmCall)
               (loadPolicy rmPolicyExternals ''forbid rm'') ''unless-trusted'') = ''''"
    by (simp_all add: evaluateToolApproval_rmCall)
  have mem: "rmCall \<in> set [rmCall, writeCall]" "writeCall \<in> set [rmCall, writeCall]" by simp_all
  from T have G: "\<forall>fc \<in> set [rmCall, writeCall].
        ''unless-trusted'' \<noteq> '''' \<and> ''unless-trusted'' \<noteq> ApprovalNever \<and>
        fst (evaluateToolApproval rmPolicyExternals (Name fc) (Arguments fc)
               (loadPolicy rmPolicyExternals ''forbid rm'') ''unless-trusted'') = ApprovalForbidden \<longrightarrow>
        fc \<notin> set (fst (gateBatch rmPolicyExternals [rmCall, writeCall] ''unless-trusted''
                 ''forbid rm'' (Some \<lparr>Approved = [], Denied = [''call_2'']\<rparr>))) \<and>
        forbiddenOutput fc
          (snd (evaluateToolApproval rmPolicyExternals (Name fc) (Arguments fc)
                  (loadPolicy rmPolicyExternals ''forbid rm'') ''unless-trusted''))
          \<in> set (snd (gateBatch rmPolicyExternals [rmCall, writeCall] ''unless-trusted''
                 ''forbid rm'' (Some \<lparr>Approved = [], Denied = [''call_2'']\<rparr>)))"
    by blast
  from bspec[OF G mem(1)] md ev(1) have c6:
    "rmCall \<notin> set (fst (gateBatch rmPolicyExternals [rmCall, writeCall] ''unless-trusted''
                 ''forbid rm'' (Some \<lparr>Approved = [], Denied = [''call_2'']\<rparr>)))"
    and c7': "forbiddenOutput rmCall
          (snd (evaluateToolApproval rmPolicyExternals (Name rmCall) (Arguments rmCall)
                  (loadPolicy rmPolicyExternals ''forbid rm'') ''unless-trusted''))
          \<in> set (snd (gateBatch rmPolicyExternals [rmCall, writeCall] ''unless-trusted''
                 ''forbid rm'' (Some \<lparr>Approved = [], Denied = [''call_2'']\<rparr>)))"
    by blast+
  have c7: "forbiddenOutput rmCall '''' \<in>
       set (snd (gateBatch rmPolicyExternals [rmCall, writeCall] ''unless-trusted''
                   ''forbid rm'' (Some \<lparr>Approved = [], Denied = [''call_2'']\<rparr>)))"
    using c7' unfolding ev(2) .
  from T have D: "\<forall>fc \<in> set [rmCall, writeCall].
        fst (classifyToolsForApproval rmPolicyExternals [rmCall, writeCall] ''unless-trusted''
               ''forbid rm'') \<noteq> [] \<and>
        CallID fc \<in> set (Denied \<lparr>Approved = [], Denied = [''call_2'']\<rparr>) \<longrightarrow>
        fc \<notin> set (fst (gateBatch rmPolicyExternals [rmCall, writeCall] ''unless-trusted''
                 ''forbid rm'' (Some \<lparr>Approved = [], Denied = [''call_2'']\<rparr>)))"
    by blast
  have pn: "fst (classifyToolsForApproval rmPolicyExternals [rmCall, writeCall] ''unless-trusted''
               ''forbid rm'') \<noteq> []"
    by (simp add: classify_rm_write)
  have dn: "CallID writeCall \<in> set (Denied \<lparr>Approved = [], Denied = [''call_2'']\<rparr>)"
    by (simp add: ids)
  from bspec[OF D mem(2)] pn dn have c8:
    "writeCall \<notin> set (fst (gateBatch rmPolicyExternals [rmCall, writeCall] ''unless-trusted''
                 ''forbid rm'' (Some \<lparr>Approved = [], Denied = [''call_2'']\<rparr>)))"
    by blast
  show ?thesis using c1 c2 c3 c4 c5 c6 c7 c8 by (intro conjI)
qed

text \<open>
  Claim C5 as stated fails for a forbidden call without a reason: a policy that forbids
  \<open>rm\<close> and gives no justification makes the output's content
  \<open>"This command is forbidden by exec policy."\<close>, which does not start with
  \<open>"Forbidden"\<close>.
\<close>

theorem forbidden_without_reason_counterexample:
  "snd (classifyToolsForApproval rmPolicyExternals [rmCall] ''unless-trusted'' ''forbid rm'') =
     [\<lparr>Type = ItemTypeFunctionCallOutput, CallID = ''call_1'', Name = '''', Arguments = '''',
       Output = Some \<lparr>Content = ''This command is forbidden by exec policy.'',
                       Success = Some False\<rparr>\<rparr>]
   \<and> \<not> prefix ''Forbidden'' ''This command is forbidden by exec policy.''"
  unfolding classify_rmCall by (simp add: forbiddenOutput_def rmCall_def)

section \<open>Unified exec handler (internal/tools/handlers, exec_command and write_stdin)\<close>

text \<open>
  A finite \<open>float64\<close> is modelled by its exact value, a rational; NaN and the infinities
  do not occur in what follows (JSON has none, and the conversions below produce none).
\<close>

type_synonym float64 = rat

text \<open>
  \<open>float64(n)\<close> for an \<open>int\<close>: exact up to \<open>2^53\<close> in absolute value, and beyond that
  the magnitude is rounded to 53 significant bits, to nearest, ties to even (\<open>round53\<close>,
  for a magnitude above \<open>2^53\<close>).
\<close>

definition round53 :: "int \<Rightarrow> int" where
  "round53 a =
     (let e = nat (bitlen a - 53);
          q = a div 2 ^ e;
          r = a mod 2 ^ e;
          half = 2 ^ (e - 1);
          q' = (if half < r \<or> (r = half \<and> odd q) then q + 1 else q)
      in q' * 2 ^ e)"

definition float64_of_int :: "int \<Rightarrow> float64" where
  "float64_of_int n =
     (if \<bar>n\<bar> \<le> 2 ^ 53 then of_int n else of_int (sgn n * round53 \<bar>n\<bar>))"

text \<open>
  \<open>int(f)\<close> for a \<open>float64\<close>: the fraction is discarded (truncation toward zero). When
  the result does not fit in 64 bits Go leaves the value to the implementation; the model
  returns \<open>-2^63\<close> there, as amd64 does.
\<close>

definition go_int_of_float64 :: "float64 \<Rightarrow> int" where
  "go_int_of_float64 f =
     (let t = (if 0 \<le> f then \<lfloor>f\<rfloor> else - \<lfloor>- f\<rfloor>)
      in if - (2 ^ 63) \<le> t \<and> t < 2 ^ 63 then t else - (2 ^ 63))"


definition clampYieldTime :: "int \<Rightarrow> int \<Rightarrow> int \<Rightarrow> int" where
  "clampYieldTime ms minMs maxMs =
     go_int_of_float64
       (max (float64_of_int minMs) (min (float64_of_int ms) (float64_of_int maxMs)))"





text \<open>\<open>fmt.Sprintf("%d", n)\<close>: the decimal digits of \<open>n\<close>, with a minus sign when negative.\<close>

fun showNat :: "nat \<Rightarrow> string" where
  "showNat n =
     (if n < 10 then [''0123456789'' ! n]
      else showNat (n div 10) @ [''0123456789'' ! (n mod 10)])"

declare showNat.simps [simp del]

definition showInt :: "int \<Rightarrow> string" where
  "showInt i = (if i < 0 then CHR ''-'' # showNat (nat (- i)) else showNat (nat i))"

text \<open>
  \<open>tools.ToolOutput\<close> has the fields \<open>Content\<close> and \<open>Success\<close>; they carry the prefix
  \<open>Tool\<close> here. \<open>formatExecResponse\<close> takes the wall time already rendered by
  \<open>%.3f\<close> (the decimal text of \<open>wallTime.Seconds()\<close>) as the string \<open>wallSeconds\<close>; the
  exit code is a \<open>*int\<close>.
\<close>

record ToolOutput =
  ToolContent :: string
  ToolSuccess :: "bool option"

definition formatExecResponse :: "bytes \<Rightarrow> string \<Rightarrow> int option \<Rightarrow> string \<Rightarrow> ToolOutput" where
  "formatExecResponse output wallSeconds exitCode sessionID =
     (let result = ''--- Wall time: '' @ wallSeconds @ ''s ---\<newline>'';
          result = (case exitCode of
                      Some c \<Rightarrow> result @ ''--- Exit code: '' @ showInt c @ '' ---\<newline>''
                    | None \<Rightarrow> result);
          result = (if sessionID \<noteq> ''''
                    then result @ ''--- Session ID: '' @ sessionID @ '' ---\<newline>''
                    else result);
          result = result @ ''--- Output ---\<newline>'';
          result = (if length output > 0 then result @ output else result);
          success = (exitCode = None \<or> exitCode = Some 0)
      in \<lparr>ToolContent = result, ToolSuccess = Some success\<rparr>)"

text \<open>
  Modelled from the spec: the \<open>ExecSession\<close> type is not among the source files. What the
  handlers read of a session after \<open>CollectOutput\<close> is \<open>HasExited()\<close> and \<open>ExitCode()\<close>:
  the spec gives a session an exit-code cell, and the session tests read a non-nil
  \<open>ExitCode()\<close> once \<open>HasExited()\<close> is true.
\<close>

record SessionExit =
  HasExited :: bool
  ExitCode :: "int option"

text \<open>
  The end of \<open>handleExecCommand\<close> and of \<open>handleWriteStdin\<close>, from the check of
  \<open>sess.HasExited()\<close> on: the response for a session seen as \<open>sess\<close> after its output
  was collected. \<open>processID\<close> comes from \<open>AllocateID\<close> and \<open>sessionID\<close> from
  \<open>fmt.Sprintf("%d", ...)\<close>; both are decimal numerals.
\<close>

definition execCommandResponse :: "SessionExit \<Rightarrow> bytes \<Rightarrow> string \<Rightarrow> string \<Rightarrow> ToolOutput" where
  "execCommandResponse sess output wallSeconds processID =
     (if HasExited sess then formatExecResponse output wallSeconds (ExitCode sess) ''''
      else formatExecResponse output wallSeconds None processID)"

definition writeStdinResponse :: "SessionExit \<Rightarrow> bytes \<Rightarrow> string \<Rightarrow> string \<Rightarrow> ToolOutput" where
  "writeStdinResponse sess output wallSeconds sessionID =
     (if HasExited sess then formatExecResponse output wallSeconds (ExitCode sess) ''''
      else formatExecResponse output wallSeconds None sessionID)"








lemma showNat_nonempty: "showNat n \<noteq> []"
  by (subst showNat.simps) simp

lemma showInt_nonempty: "showInt i \<noteq> []"
  by (simp add: showInt_def showNat_nonempty)


text \<open>
  Outside these bounds the function is not the mathematical clamp: with \<open>minMs > maxMs\<close>
  the lower bound wins, and a bound above \<open>2^53\<close> lets the rounding of \<open>float64(ms)\<close>
  show. No caller passes such bounds.
\<close>

lemma clampYieldTime_outside_domain:
  "clampYieldTime 7 10 5 = 10"
  by (simp add: clampYieldTime_def float64_of_int_def go_int_of_float64_def)

lemma clampYieldTime_large_bounds: "clampYieldTime (2 ^ 53 + 1) 0 (2 ^ 62) = 2 ^ 53"
  by code_simp





text \<open>
  Claim C10. \<open>formatExecResponse\<close> sets \<open>success\<close> to true exactly when the exit code is
  absent or zero. When the process has not exited at the yield deadline, \<open>exec_command\<close>
  and \<open>write_stdin\<close> return \<open>success = true\<close> and a content made of the wall-time line, the
  \<open>Session ID\<close> line, the output marker and the output, with no \<open>Exit code\<close> line; when it
  has exited with code \<open>code\<close> they return the wall-time line, the \<open>Exit code\<close> line, the
  output marker and the output, with no \<open>Session ID\<close> line, and \<open>success\<close> is
  \<open>code = 0\<close>.
\<close>

theorem exec_response_format:
  "ToolSuccess (formatExecResponse output wallSeconds exitCode sessionID) =
     Some (exitCode = None \<or> exitCode = Some 0)
   \<and> execCommandResponse \<lparr>HasExited = False, ExitCode = ec\<rparr> output wallSeconds (showInt pid) =
       \<lparr>ToolContent = ''--- Wall time: '' @ wallSeconds @ ''s ---\<newline>'' @
                       ''--- Session ID: '' @ showInt pid @ '' ---\<newline>'' @
                       ''--- Output ---\<newline>'' @ output,
        ToolSuccess = Some True\<rparr>
   \<and> writeStdinResponse \<lparr>HasExited = False, ExitCode = ec\<rparr> output wallSeconds (showInt pid) =
       \<lparr>ToolContent = ''--- Wall time: '' @ wallSeconds @ ''s ---\<newline>'' @
                       ''--- Session ID: '' @ showInt pid @ '' ---\<newline>'' @
                       ''--- Output ---\<newline>'' @ output,
        ToolSuccess = Some True\<rparr>
   \<and> execCommandResponse \<lparr>HasExited = True, ExitCode = Some code\<rparr> output wallSeconds processID =
       \<lparr>ToolContent = ''--- Wall time: '' @ wallSeconds @ ''s ---\<newline>'' @
                       ''--- Exit code: '' @ showInt code @ '' ---\<newline>'' @
                       ''--- Output ---\<newline>'' @ output,
        ToolSuccess = Some (code = 0)\<rparr>
   \<and> writeStdinResponse \<lparr>HasExited = True, ExitCode = Some code\<rparr> output wallSeconds processID =
       \<lparr>ToolContent = ''--- Wall time: '' @ wallSeconds @ ''s ---\<newline>'' @
                       ''--- Exit code: '' @ showInt code @ '' ---\<newline>'' @
                       ''--- Output ---\<newline>'' @ output,
        ToolSuccess = Some (code = 0)\<rparr>"
  by (simp add: formatExecResponse_def execCommandResponse_def writeStdinResponse_def Let_def
      showInt_nonempty)

theorem exec_response_format_witness:
  "execCommandResponse \<lparr>HasExited = False, ExitCode = None\<rparr> ''hello'' ''1.000'' (showInt 1234) =
     \<lparr>ToolContent = ''--- Wall time: 1.000s ---\<newline>--- Session ID: 1234 ---\<newline>--- Output ---\<newline>hello'',
      ToolSuccess = Some True\<rparr>
   \<and> writeStdinResponse \<lparr>HasExited = True, ExitCode = Some 42\<rparr> ''fail'' ''0.010'' '''' =
     \<lparr>ToolContent = ''--- Wall time: 0.010s ---\<newline>--- Exit code: 42 ---\<newline>--- Output ---\<newline>fail'',
      ToolSuccess = Some False\<rparr>"
proof -
  have s1: "showInt 1234 = ''1234''" by code_simp
  have s2: "showInt 42 = ''42''" by code_simp
  show ?thesis
    using exec_response_format [of "''hello''" "''1.000''" None "''''" None 1234 42]
      exec_response_format [of "''fail''" "''0.010''" None "''''" None 1234 42]
    by (simp add: s1 s2)
qed

section \<open>Sandbox denial detection and escalation (internal/workflow/escalation.go)\<close>

definition sandboxDenialKeywords :: "string list" where
  "sandboxDenialKeywords =
     [''operation not permitted'', ''permission denied'', ''read-only file system'',
      ''seccomp'', ''sandbox'', ''landlock'', ''failed to write file'']"

text \<open>
  \<open>strings.ToLower\<close> is a parameter (\<open>toLower\<close>): on ASCII text it is \<open>asciiToLower\<close>
  below, and beyond ASCII it follows the Unicode tables. \<open>strings.Contains(s, kw)\<close> is
  \<open>sublist kw s\<close>: \<open>kw\<close> occurs in \<open>s\<close> as a contiguous run of bytes.
\<close>

fun keywordLoop :: "string \<Rightarrow> string list \<Rightarrow> bool" where
  "keywordLoop lower [] = False"
| "keywordLoop lower (kw # kws) = (if sublist kw lower then True else keywordLoop lower kws)"

definition isLikelySandboxDenial :: "(string \<Rightarrow> string) \<Rightarrow> string \<Rightarrow> bool" where
  "isLikelySandboxDenial toLower output =
     (let lower = toLower output in keywordLoop lower sandboxDenialKeywords)"

definition asciiToLower :: "string \<Rightarrow> string" where
  "asciiToLower s =
     map (\<lambda>c. let n = (of_char c :: nat)
               in if 65 \<le> n \<and> n \<le> 90 then char_of (n + 32) else c) s"

text \<open>
  \<open>activities.ToolActivityOutput\<close> and \<open>EscalationRequest\<close>, with the fields that
  \<open>handleOnFailureEscalation\<close> reads and writes; the fields carry the prefixes \<open>Result\<close>
  and \<open>Esc\<close> here.
\<close>

record ToolActivityOutput =
  ResultCallID :: string
  ResultContent :: string
  ResultSuccess :: "bool option"

record EscalationRequest =
  EscCallID :: string
  EscToolName :: string
  EscArguments :: string
  EscOutput :: string
  EscReason :: string

text \<open>
  The first loop of \<open>handleOnFailureEscalation\<close>, which finds the failed tools to
  escalate: \<open>i\<close> is the index of the next result, \<open>failedIndices\<close> the keys of the
  \<open>map[int]bool\<close> set to true. Both branches for a failed result read
  \<open>functionCalls[i]\<close> (the second one for its log line), which panics when \<open>i\<close> is out of
  range. The logging itself, the wait for the user's decision and the re-execution that
  follow are workflow effects and are not modelled.
\<close>

fun escalationLoop ::
  "(string \<Rightarrow> string) \<Rightarrow> ConversationItem list \<Rightarrow> nat \<Rightarrow> ToolActivityOutput list
     \<Rightarrow> EscalationRequest list \<Rightarrow> nat set
     \<Rightarrow> go_panic + (EscalationRequest list \<times> nat set)" where
  "escalationLoop toLower functionCalls i [] escalations failedIndices =
     Inr (escalations, failedIndices)"
| "escalationLoop toLower functionCalls i (result # rest) escalations failedIndices =
     (if ResultSuccess result = Some False then
        (if isLikelySandboxDenial toLower (ResultContent result) then
           (if i < length functionCalls then
              escalationLoop toLower functionCalls (Suc i) rest
                (escalations @
                   [\<lparr>EscCallID = ResultCallID result,
                     EscToolName = Name (functionCalls ! i),
                     EscArguments = Arguments (functionCalls ! i),
                     EscOutput = ResultContent result,
                     EscReason = ''command failed in sandbox''\<rparr>])
                (insert i failedIndices)
            else Inl IndexOutOfRange)
         else
           (if i < length functionCalls then
              escalationLoop toLower functionCalls (Suc i) rest escalations failedIndices
            else Inl IndexOutOfRange))
      else escalationLoop toLower functionCalls (Suc i) rest escalations failedIndices)"

definition findEscalations ::
  "(string \<Rightarrow> string) \<Rightarrow> ConversationItem list \<Rightarrow> ToolActivityOutput list
     \<Rightarrow> go_panic + (EscalationRequest list \<times> nat set)" where
  "findEscalations toLower functionCalls toolResults =
     escalationLoop toLower functionCalls 0 toolResults [] {}"

definition escalationFor :: "ConversationItem list \<Rightarrow> nat \<times> ToolActivityOutput \<Rightarrow> EscalationRequest" where
  "escalationFor functionCalls p =
     \<lparr>EscCallID = ResultCallID (snd p),
      EscToolName = Name (functionCalls ! fst p),
      EscArguments = Arguments (functionCalls ! fst p),
      EscOutput = ResultContent (snd p),
      EscReason = ''command failed in sandbox''\<rparr>"

definition sandboxFailure :: "(string \<Rightarrow> string) \<Rightarrow> ToolActivityOutput \<Rightarrow> bool" where
  "sandboxFailure toLower result \<longleftrightarrow>
     ResultSuccess result = Some False \<and> isLikelySandboxDenial toLower (ResultContent result)"

lemma keywordLoop_iff: "keywordLoop lower kws \<longleftrightarrow> (\<exists>kw \<in> set kws. sublist kw lower)"
  by (induction kws) auto

lemma escalationLoop_eq:
  "i + length results \<le> length functionCalls \<Longrightarrow>
   escalationLoop toLower functionCalls i results escalations failedIndices =
     Inr (escalations @
            map (escalationFor functionCalls)
              (filter (\<lambda>p. sandboxFailure toLower (snd p)) (zip [i..<i + length results] results)),
          failedIndices \<union>
            fst ` set (filter (\<lambda>p. sandboxFailure toLower (snd p))
                         (zip [i..<i + length results] results)))"
proof (induction results arbitrary: i escalations failedIndices)
  case Nil
  then show ?case by simp
next
  case (Cons result rest)
  have lt: "i < length functionCalls" and nx: "Suc i + length rest \<le> length functionCalls"
    using Cons.prems by simp_all
  have up: "[i..<i + length (result # rest)] = i # [Suc i..<Suc i + length rest]"
    by (simp add: upt_rec)
  show ?case
    unfolding up using lt Cons.IH[OF nx]
    by (simp add: sandboxFailure_def escalationFor_def)
qed

text \<open>
  Claim C7. \<open>isLikelySandboxDenial\<close> returns true exactly when the lowercased output
  contains at least one of the seven keywords. In \<open>handleOnFailureEscalation\<close>, given a
  function call for every result, the scan does not panic and the results that enter
  escalation are exactly the failed ones (\<open>success\<close> set and false) whose content
  satisfies the predicate: \<open>failedIndices\<close> is the set of their indices and
  \<open>escalations\<close> holds one request for each of them, in order.
\<close>

theorem sandbox_denial_detection:
  "(isLikelySandboxDenial toLower output \<longleftrightarrow>
      (\<exists>kw \<in> set [''operation not permitted'', ''permission denied'', ''read-only file system'',
                    ''seccomp'', ''sandbox'', ''landlock'', ''failed to write file''].
         sublist kw (toLower output)))
   \<and> (length toolResults \<le> length functionCalls \<longrightarrow>
        (\<exists>escalations failedIndices.
           findEscalations toLower functionCalls toolResults = Inr (escalations, failedIndices) \<and>
           failedIndices =
             {i. i < length toolResults \<and> ResultSuccess (toolResults ! i) = Some False \<and>
                 isLikelySandboxDenial toLower (ResultContent (toolResults ! i))} \<and>
           escalations =
             map (escalationFor functionCalls)
               (filter (\<lambda>p. ResultSuccess (snd p) = Some False \<and>
                             isLikelySandboxDenial toLower (ResultContent (snd p)))
                  (zip [0..<length toolResults] toolResults))))"
proof -
  have k: "isLikelySandboxDenial toLower output \<longleftrightarrow>
      (\<exists>kw \<in> set [''operation not permitted'', ''permission denied'', ''read-only file system'',
                    ''seccomp'', ''sandbox'', ''landlock'', ''failed to write file''].
         sublist kw (toLower output))"
    unfolding isLikelySandboxDenial_def Let_def keywordLoop_iff sandboxDenialKeywords_def ..
  have e: "length toolResults \<le> length functionCalls \<longrightarrow>
        (\<exists>escalations failedIndices.
           findEscalations toLower functionCalls toolResults = Inr (escalations, failedIndices) \<and>
           failedIndices =
             {i. i < length toolResults \<and> ResultSuccess (toolResults ! i) = Some False \<and>
                 isLikelySandboxDenial toLower (ResultContent (toolResults ! i))} \<and>
           escalations =
             map (escalationFor functionCalls)
               (filter (\<lambda>p. ResultSuccess (snd p) = Some False \<and>
                             isLikelySandboxDenial toLower (ResultContent (snd p)))
                  (zip [0..<length toolResults] toolResults)))"
  proof
    assume le: "length toolResults \<le> length functionCalls"
    have f: "fst ` set (filter (\<lambda>p. sandboxFailure toLower (snd p))
                         (zip [0..<length toolResults] toolResults)) =
             {i. i < length toolResults \<and> ResultSuccess (toolResults ! i) = Some False \<and>
                 isLikelySandboxDenial toLower (ResultContent (toolResults ! i))}"
      by (force simp: sandboxFailure_def set_zip image_iff)
    show "\<exists>escalations failedIndices.
           findEscalations toLower functionCalls toolResults = Inr (escalations, failedIndices) \<and>
           failedIndices =
             {i. i < length toolResults \<and> ResultSuccess (toolResults ! i) = Some False \<and>
                 isLikelySandboxDenial toLower (ResultContent (toolResults ! i))} \<and>
           escalations =
             map (escalationFor functionCalls)
               (filter (\<lambda>p. ResultSuccess (snd p) = Some False \<and>
                             isLikelySandboxDenial toLower (ResultContent (snd p)))
                  (zip [0..<length toolResults] toolResults))"
      using escalationLoop_eq[of 0 toolResults functionCalls toLower "[]" "{}"] le f
      by (simp add: findEscalations_def sandboxFailure_def)
  qed
  show ?thesis using k e by blast
qed

definition deniedResult :: ToolActivityOutput where
  "deniedResult = \<lparr>ResultCallID = ''call_1'', ResultContent = ''rm: Permission Denied'',
                    ResultSuccess = Some False\<rparr>"

definition missingResult :: ToolActivityOutput where
  "missingResult = \<lparr>ResultCallID = ''call_2'', ResultContent = ''file not found'',
                     ResultSuccess = Some False\<rparr>"

theorem sandbox_denial_detection_witness:
  "isLikelySandboxDenial asciiToLower ''rm: Permission Denied''
   \<and> \<not> isLikelySandboxDenial asciiToLower ''file not found''
   \<and> findEscalations asciiToLower [rmCall, writeCall] [deniedResult, missingResult] =
       Inr ([\<lparr>EscCallID = ''call_1'', EscToolName = ''shell'',
               EscArguments = ''{\"command\":[\"rm\",\"-rf\",\"/\"]}'',
               EscOutput = ''rm: Permission Denied'',
               EscReason = ''command failed in sandbox''\<rparr>], {0})"
proof -
  note T = sandbox_denial_detection [of asciiToLower "''rm: Permission Denied''"
      "[deniedResult, missingResult]" "[rmCall, writeCall]"]
  have s: "sublist ''permission denied'' (asciiToLower ''rm: Permission Denied'')"
    by code_simp
  have "\<exists>kw \<in> set [''operation not permitted'', ''permission denied'', ''read-only file system'',
                    ''seccomp'', ''sandbox'', ''landlock'', ''failed to write file''].
         sublist kw (asciiToLower ''rm: Permission Denied'')"
    by (rule bexI[of _ "''permission denied''"]) (rule s, simp)
  with T have a: "isLikelySandboxDenial asciiToLower ''rm: Permission Denied''" by blast
  have b: "\<not> isLikelySandboxDenial asciiToLower ''file not found''" by code_simp
  have c: "findEscalations asciiToLower [rmCall, writeCall] [deniedResult, missingResult] =
       Inr ([\<lparr>EscCallID = ''call_1'', EscToolName = ''shell'',
               EscArguments = ''{\"command\":[\"rm\",\"-rf\",\"/\"]}'',
               EscOutput = ''rm: Permission Denied'',
               EscReason = ''command failed in sandbox''\<rparr>], {0})"
    using a b by (simp add: findEscalations_def deniedResult_def missingResult_def rmCall_def)
  show ?thesis using a b c by (intro conjI)
qed

section \<open>Plan updates (internal/workflow/plan.go)\<close>

text \<open>
  Modelled from the spec: the declarations of \<open>PlanStepStatus\<close> (a string type) and of
  its constants are not among the source files. The spec lists the statuses \<open>pending\<close>,
  \<open>in_progress\<close> and \<open>completed\<close>, the error message of \<open>parseUpdatePlanArgs\<close> names the
  same three, and its tests read \<open>"completed"\<close> back as \<open>PlanStepCompleted\<close>.
\<close>

definition PlanStepPending :: string where "PlanStepPending = ''pending''"
definition PlanStepInProgress :: string where "PlanStepInProgress = ''in_progress''"
definition PlanStepCompleted :: string where "PlanStepCompleted = ''completed''"

record PlanStep =
  Step :: string
  Status :: string

record PlanState =
  Explanation :: string
  Steps :: "PlanStep list"

text \<open>
  The anonymous struct that \<open>parseUpdatePlanArgs\<close> decodes into; its fields carry the
  prefix \<open>Arg\<close> here. \<open>json.Unmarshal\<close> into that struct is a parameter (\<open>UnmarshalPlan\<close>:
  the text of the error, or the decoded struct), and so is the rendering of a string by
  \<open>%q\<close> (\<open>Quote\<close>).
\<close>

record PlanArgStep =
  ArgStep :: string
  ArgStatus :: string

record UpdatePlanArgs =
  ArgExplanation :: string
  ArgPlan :: "PlanArgStep list"

record plan_externals =
  UnmarshalPlan :: "string \<Rightarrow> string + UpdatePlanArgs"
  Quote :: "string \<Rightarrow> string"

text \<open>
  The loop over \<open>args.Plan\<close>: \<open>i\<close> is the index of the next step, \<open>inProgressCount\<close> the
  counter and \<open>steps\<close> the prefix of the result filled so far. An error is its message.
\<close>

fun planLoop ::
  "plan_externals \<Rightarrow> nat \<Rightarrow> PlanArgStep list \<Rightarrow> int \<Rightarrow> PlanStep list
     \<Rightarrow> string + (int \<times> PlanStep list)" where
  "planLoop ext i [] inProgressCount steps = Inr (inProgressCount, steps)"
| "planLoop ext i (s # rest) inProgressCount steps =
     (if ArgStep s = '''' then
        Inl (''step '' @ showInt (int i + 1) @ '': step description must not be empty'')
      else if ArgStatus s \<noteq> PlanStepPending \<and> ArgStatus s \<noteq> PlanStepInProgress
              \<and> ArgStatus s \<noteq> PlanStepCompleted then
        Inl (''step '' @ showInt (int i + 1) @ '': invalid status '' @ Quote ext (ArgStatus s)
             @ '' (must be pending, in_progress, or completed)'')
      else
        planLoop ext (Suc i) rest
          (if ArgStatus s = PlanStepInProgress then inProgressCount + 1 else inProgressCount)
          (steps @ [\<lparr>Step = ArgStep s, Status = ArgStatus s\<rparr>]))"

definition parseUpdatePlanArgs :: "plan_externals \<Rightarrow> string \<Rightarrow> string + PlanState" where
  "parseUpdatePlanArgs ext argsJSON =
     (case UnmarshalPlan ext argsJSON of
        Inl err \<Rightarrow> Inl (''invalid JSON: '' @ err)
      | Inr args \<Rightarrow>
          if length (ArgPlan args) = 0 then Inl ''plan array must not be empty''
          else
            (case planLoop ext 0 (ArgPlan args) 0 [] of
               Inl err \<Rightarrow> Inl err
             | Inr (inProgressCount, steps) \<Rightarrow>
                 if inProgressCount > 1 then
                   Inl (''at most one step can be in_progress, got '' @ showInt inProgressCount)
                 else Inr \<lparr>Explanation = ArgExplanation args, Steps = steps\<rparr>))"

text \<open>
  Of \<open>SessionState\<close> only the plan (a \<open>*PlanState\<close>) is read or written here; the other
  fields are the record's extension. \<open>handleUpdatePlan\<close> returns the new state and the
  output item (its Go error is always nil); the log lines are left out.
\<close>

record SessionState =
  Plan :: "PlanState option"

definition handleUpdatePlan ::
  "plan_externals \<Rightarrow> 'a SessionState_scheme \<Rightarrow> ConversationItem
     \<Rightarrow> 'a SessionState_scheme \<times> ConversationItem" where
  "handleUpdatePlan ext s fc =
     (case parseUpdatePlanArgs ext (Arguments fc) of
        Inl err \<Rightarrow>
          (s, \<lparr>Type = ItemTypeFunctionCallOutput, CallID = CallID fc, Name = '''',
               Arguments = '''',
               Output = Some \<lparr>Content = ''Invalid update_plan arguments: '' @ err,
                               Success = Some False\<rparr>\<rparr>)
      | Inr planState \<Rightarrow>
          (s\<lparr>Plan := Some planState\<rparr>,
           \<lparr>Type = ItemTypeFunctionCallOutput, CallID = CallID fc, Name = '''',
             Arguments = '''',
             Output = Some \<lparr>Content = ''Plan updated.'', Success = Some True\<rparr>\<rparr>))"

text \<open>What the claim calls a valid step, and a plan's steps as the result holds them.\<close>

definition validStep :: "PlanArgStep \<Rightarrow> bool" where
  "validStep s \<longleftrightarrow>
     ArgStep s \<noteq> '''' \<and> ArgStatus s \<in> {''pending'', ''in_progress'', ''completed''}"

definition toPlanStep :: "PlanArgStep \<Rightarrow> PlanStep" where
  "toPlanStep s = \<lparr>Step = ArgStep s, Status = ArgStatus s\<rparr>"

lemma planLoop_ok:
  "list_all validStep plan \<Longrightarrow>
   planLoop ext i plan cnt steps =
     Inr (cnt + int (length (filter (\<lambda>s. ArgStatus s = ''in_progress'') plan)),
          steps @ map toPlanStep plan)"
  by (induction plan arbitrary: i cnt steps)
     (auto simp: validStep_def toPlanStep_def PlanStepPending_def PlanStepInProgress_def
        PlanStepCompleted_def)

lemma planLoop_bad:
  "\<not> list_all validStep plan \<Longrightarrow> \<exists>err. planLoop ext i plan cnt steps = Inl err"
  by (induction plan arbitrary: i cnt steps)
     (auto simp: validStep_def PlanStepPending_def PlanStepInProgress_def PlanStepCompleted_def)

lemma parseUpdatePlanArgs_Inr:
  "parseUpdatePlanArgs ext argsJSON = Inr planState \<longleftrightarrow>
     (\<exists>args. UnmarshalPlan ext argsJSON = Inr args \<and> ArgPlan args \<noteq> [] \<and>
        list_all validStep (ArgPlan args) \<and>
        length (filter (\<lambda>s. ArgStatus s = ''in_progress'') (ArgPlan args)) \<le> 1 \<and>
        planState = \<lparr>Explanation = ArgExplanation args, Steps = map toPlanStep (ArgPlan args)\<rparr>)"
proof (cases "UnmarshalPlan ext argsJSON")
  case (Inl err)
  then show ?thesis by (simp add: parseUpdatePlanArgs_def)
next
  case (Inr args)
  show ?thesis
  proof (cases "list_all validStep (ArgPlan args)")
    case True
    show ?thesis
      using Inr True planLoop_ok[OF True, of ext 0 0 "[]"]
      by (auto simp: parseUpdatePlanArgs_def)
  next
    case False
    from planLoop_bad[OF False, of ext 0 0 "[]"] obtain err where
      "planLoop ext 0 (ArgPlan args) 0 [] = Inl err" by blast
    then show ?thesis using Inr False by (auto simp: parseUpdatePlanArgs_def)
  qed
qed

text \<open>
  Claim C8. \<open>parseUpdatePlanArgs\<close> succeeds exactly when its argument decodes (it is valid
  JSON for the argument struct) to a non-empty plan in which every step has a non-empty
  text and a status among \<open>pending\<close>, \<open>in_progress\<close> and \<open>completed\<close>, and at most one
  step is \<open>in_progress\<close>; on success the returned \<open>PlanState\<close> has the decoded explanation
  and the steps in their order; when parsing fails \<open>handleUpdatePlan\<close> returns a
  \<open>function_call_output\<close> with \<open>success = false\<close> and leaves the session state, its plan
  included, unchanged; when it succeeds the plan becomes the parsed one.
\<close>

theorem update_plan_validation:
  "((\<exists>planState. parseUpdatePlanArgs ext argsJSON = Inr planState) \<longleftrightarrow>
      (\<exists>args. UnmarshalPlan ext argsJSON = Inr args \<and> ArgPlan args \<noteq> [] \<and>
         (\<forall>s \<in> set (ArgPlan args).
            ArgStep s \<noteq> '''' \<and> ArgStatus s \<in> {''pending'', ''in_progress'', ''completed''}) \<and>
         length (filter (\<lambda>s. ArgStatus s = ''in_progress'') (ArgPlan args)) \<le> 1))
   \<and> (\<forall>planState. parseUpdatePlanArgs ext argsJSON = Inr planState \<longrightarrow>
        (\<exists>args. UnmarshalPlan ext argsJSON = Inr args \<and>
           Explanation planState = ArgExplanation args \<and>
           Steps planState =
             map (\<lambda>s. \<lparr>Step = ArgStep s, Status = ArgStatus s\<rparr>) (ArgPlan args)))
   \<and> (\<forall>err. parseUpdatePlanArgs ext (Arguments fc) = Inl err \<longrightarrow>
        handleUpdatePlan ext s fc =
          (s, \<lparr>Type = ItemTypeFunctionCallOutput, CallID = CallID fc, Name = '''',
               Arguments = '''',
               Output = Some \<lparr>Content = ''Invalid update_plan arguments: '' @ err,
                               Success = Some False\<rparr>\<rparr>))
   \<and> (\<forall>planState. parseUpdatePlanArgs ext (Arguments fc') = Inr planState \<longrightarrow>
        handleUpdatePlan ext s fc' =
          (s\<lparr>Plan := Some planState\<rparr>,
           \<lparr>Type = ItemTypeFunctionCallOutput, CallID = CallID fc', Name = '''',
             Arguments = '''',
             Output = Some \<lparr>Content = ''Plan updated.'', Success = Some True\<rparr>\<rparr>))"
proof -
  have v: "\<And>plan. list_all validStep plan \<longleftrightarrow>
      (\<forall>s \<in> set plan.
         ArgStep s \<noteq> '''' \<and> ArgStatus s \<in> {''pending'', ''in_progress'', ''completed''})"
    by (simp add: list_all_iff validStep_def)
  have a: "(\<exists>planState. parseUpdatePlanArgs ext argsJSON = Inr planState) \<longleftrightarrow>
      (\<exists>args. UnmarshalPlan ext argsJSON = Inr args \<and> ArgPlan args \<noteq> [] \<and>
         (\<forall>s \<in> set (ArgPlan args).
            ArgStep s \<noteq> '''' \<and> ArgStatus s \<in> {''pending'', ''in_progress'', ''completed''}) \<and>
         length (filter (\<lambda>s. ArgStatus s = ''in_progress'') (ArgPlan args)) \<le> 1)"
    unfolding parseUpdatePlanArgs_Inr v[symmetric] by blast
  have b: "\<forall>planState. parseUpdatePlanArgs ext argsJSON = Inr planState \<longrightarrow>
        (\<exists>args. UnmarshalPlan ext argsJSON = Inr args \<and>
           Explanation planState = ArgExplanation args \<and>
           Steps planState =
             map (\<lambda>s. \<lparr>Step = ArgStep s, Status = ArgStatus s\<rparr>) (ArgPlan args))"
    unfolding parseUpdatePlanArgs_Inr by (auto simp: toPlanStep_def)
  have c: "\<forall>err. parseUpdatePlanArgs ext (Arguments fc) = Inl err \<longrightarrow>
        handleUpdatePlan ext s fc =
          (s, \<lparr>Type = ItemTypeFunctionCallOutput, CallID = CallID fc, Name = '''',
               Arguments = '''',
               Output = Some \<lparr>Content = ''Invalid update_plan arguments: '' @ err,
                               Success = Some False\<rparr>\<rparr>)"
    by (simp add: handleUpdatePlan_def)
  have d: "\<forall>planState. parseUpdatePlanArgs ext (Arguments fc') = Inr planState \<longrightarrow>
        handleUpdatePlan ext s fc' =
          (s\<lparr>Plan := Some planState\<rparr>,
           \<lparr>Type = ItemTypeFunctionCallOutput, CallID = CallID fc', Name = '''',
             Arguments = '''',
             Output = Some \<lparr>Content = ''Plan updated.'', Success = Some True\<rparr>\<rparr>)"
    by (simp add: handleUpdatePlan_def)
  show ?thesis using a b c d by (intro conjI)
qed

definition validPlanJSON :: string where
  "validPlanJSON = ''{\"explanation\":\"Starting the migration\",\"plan\":[{\"step\":\"Read existing code\",\"status\":\"completed\"},{\"step\":\"Write migration script\",\"status\":\"in_progress\"},{\"step\":\"Run tests\",\"status\":\"pending\"}]}''"

definition validPlanArgs :: UpdatePlanArgs where
  "validPlanArgs =
     \<lparr>ArgExplanation = ''Starting the migration'',
      ArgPlan = [\<lparr>ArgStep = ''Read existing code'', ArgStatus = ''completed''\<rparr>,
                 \<lparr>ArgStep = ''Write migration script'', ArgStatus = ''in_progress''\<rparr>,
                 \<lparr>ArgStep = ''Run tests'', ArgStatus = ''pending''\<rparr>]\<rparr>"

definition planExternals :: plan_externals where
  "planExternals =
     \<lparr>UnmarshalPlan = (\<lambda>src. if src = validPlanJSON then Inr validPlanArgs
                              else Inl ''invalid character'' ),
      Quote = (\<lambda>s. [CHR 0x22] @ s @ [CHR 0x22])\<rparr>"

definition planCall :: "string \<Rightarrow> ConversationItem" where
  "planCall arguments = \<lparr>Type = ItemTypeFunctionCall, CallID = ''call_3'', Name = ''update_plan'',
                         Arguments = arguments, Output = None\<rparr>"

definition migrationPlan :: PlanState where
  "migrationPlan =
     \<lparr>Explanation = ''Starting the migration'',
      Steps = [\<lparr>Step = ''Read existing code'', Status = ''completed''\<rparr>,
               \<lparr>Step = ''Write migration script'', Status = ''in_progress''\<rparr>,
               \<lparr>Step = ''Run tests'', Status = ''pending''\<rparr>]\<rparr>"

lemma parse_validPlanJSON: "parseUpdatePlanArgs planExternals validPlanJSON = Inr migrationPlan"
  by (simp add: parseUpdatePlanArgs_def planExternals_def validPlanArgs_def migrationPlan_def
      PlanStepPending_def PlanStepInProgress_def PlanStepCompleted_def)

lemma parse_invalid_json:
  "parseUpdatePlanArgs planExternals ''{invalid json'' = Inl ''invalid JSON: invalid character''"
  by (simp add: parseUpdatePlanArgs_def planExternals_def validPlanJSON_def)

theorem update_plan_validation_witness:
  "parseUpdatePlanArgs planExternals validPlanJSON = Inr migrationPlan
   \<and> UnmarshalPlan planExternals validPlanJSON = Inr validPlanArgs
   \<and> Steps migrationPlan =
       map (\<lambda>s. \<lparr>Step = ArgStep s, Status = ArgStatus s\<rparr>) (ArgPlan validPlanArgs)
   \<and> handleUpdatePlan planExternals \<lparr>Plan = None\<rparr> (planCall ''{invalid json'') =
       (\<lparr>Plan = None\<rparr>,
        \<lparr>Type = ItemTypeFunctionCallOutput, CallID = ''call_3'', Name = '''', Arguments = '''',
          Output = Some \<lparr>Content = ''Invalid update_plan arguments: invalid JSON: invalid character'',
                          Success = Some False\<rparr>\<rparr>)
   \<and> handleUpdatePlan planExternals \<lparr>Plan = None\<rparr> (planCall validPlanJSON) =
       (\<lparr>Plan = Some migrationPlan\<rparr>,
        \<lparr>Type = ItemTypeFunctionCallOutput, CallID = ''call_3'', Name = '''', Arguments = '''',
          Output = Some \<lparr>Content = ''Plan updated.'', Success = Some True\<rparr>\<rparr>)"
proof -
  note T = update_plan_validation [of planExternals validPlanJSON "planCall ''{invalid json''"
      "\<lparr>Plan = None\<rparr>" "planCall validPlanJSON"]
  have a1: "Arguments (planCall ''{invalid json'') = ''{invalid json''"
    and a2: "Arguments (planCall validPlanJSON) = validPlanJSON"
    and a3: "\<And>x. CallID (planCall x) = ''call_3''"
    by (simp_all add: planCall_def)
  have u: "UnmarshalPlan planExternals validPlanJSON = Inr validPlanArgs"
    by (simp add: planExternals_def)
  have st: "Steps migrationPlan =
       map (\<lambda>s. \<lparr>Step = ArgStep s, Status = ArgStatus s\<rparr>) (ArgPlan validPlanArgs)"
    by (simp add: migrationPlan_def validPlanArgs_def)
  from T have "\<forall>err. parseUpdatePlanArgs planExternals (Arguments (planCall ''{invalid json'')) = Inl err \<longrightarrow>
        handleUpdatePlan planExternals \<lparr>Plan = None\<rparr> (planCall ''{invalid json'') =
          (\<lparr>Plan = None\<rparr>, \<lparr>Type = ItemTypeFunctionCallOutput, CallID = CallID (planCall ''{invalid json''), Name = '''',
               Arguments = '''',
               Output = Some \<lparr>Content = ''Invalid update_plan arguments: '' @ err,
                               Success = Some False\<rparr>\<rparr>)"
    by blast
  then have f: "handleUpdatePlan planExternals \<lparr>Plan = None\<rparr> (planCall ''{invalid json'') =
       (\<lparr>Plan = None\<rparr>,
        \<lparr>Type = ItemTypeFunctionCallOutput, CallID = ''call_3'', Name = '''', Arguments = '''',
          Output = Some \<lparr>Content = ''Invalid update_plan arguments: invalid JSON: invalid character'',
                          Success = Some False\<rparr>\<rparr>)"
    unfolding a1 a3 using parse_invalid_json by simp
  from T have "\<forall>planState. parseUpdatePlanArgs planExternals (Arguments (planCall validPlanJSON)) = Inr planState \<longrightarrow>
        handleUpdatePlan planExternals \<lparr>Plan = None\<rparr> (planCall validPlanJSON) =
          (\<lparr>Plan = None\<rparr>\<lparr>Plan := Some planState\<rparr>,
           \<lparr>Type = ItemTypeFunctionCallOutput, CallID = CallID (planCall validPlanJSON), Name = '''',
             Arguments = '''',
             Output = Some \<lparr>Content = ''Plan updated.'', Success = Some True\<rparr>\<rparr>)"
    by blast
  then have g: "handleUpdatePlan planExternals \<lparr>Plan = None\<rparr> (planCall validPlanJSON) =
       (\<lparr>Plan = Some migrationPlan\<rparr>,
        \<lparr>Type = ItemTypeFunctionCallOutput, CallID = ''call_3'', Name = '''', Arguments = '''',
          Output = Some \<lparr>Content = ''Plan updated.'', Success = Some True\<rparr>\<rparr>)"
    unfolding a2 a3 using parse_validPlanJSON by simp
  show ?thesis using parse_validPlanJSON u st f g by (intro conjI)
qed

end
